theory Spec2Isabelle
  imports Complex_Main "HOL-Library.Log_Nat" "HOL-Library.Monad_Syntax"
begin

section \<open>The glyph Bezier editor of the site script\<close>

text \<open>
  A shallow embedding of the class \<^verbatim>\<open>GlyphBezierEditor\<close>. The repository holds the
  script in three copies. The definitions follow the latest one, lines 1 to 531 of
  \<^verbatim>\<open>src/unnamed/part_000\<close> (hit radius 4, a dragged main point takes its control
  points along). \<^verbatim>\<open>src/js/site.js\<close> is an earlier copy that agrees with it on every
  function modelled here except \<^verbatim>\<open>onMouseMove\<close>, which is embedded a second time
  as \<open>onMouseMove_js_site\<close>, and the constructor's hit radius, 8. The earliest copy,
  from line 623 of \<^verbatim>\<open>src/unnamed/part_000\<close>, has no \<^verbatim>\<open>calculateOptimalScale\<close>
  and is not modelled.

  Numbers. A JavaScript number is an IEEE double. The handlers of the editor are
  embedded over exact reals, so rounding, overflow, infinities and signed zeros are
  outside that part of the model; a division by a zero scale gives Infinity or NaN in
  the script and \<open>0\<close> in HOL, and statements that read the quotient assume a scale that
  is not zero. The functions whose properties depend on rounding,
  \<^verbatim>\<open>calculateOptimalScale\<close>, \<^verbatim>\<open>transformPoint\<close> and \<^verbatim>\<open>inverseTransformPoint\<close>, are
  embedded a second time over doubles, with the suffix \<open>_f64\<close>.

  Fields. The value of a coordinate property is a \<open>jsnum\<close>: \<^verbatim>\<open>undefined\<close> when
  the object has no such property, a number, or NaN, which arithmetic with an
  undefined operand produces.
\<close>

subsection \<open>Numbers\<close>

datatype jsnum = Undefined | NaN | Num real

text \<open>\<^verbatim>\<open>a + b\<close> and \<^verbatim>\<open>a - b\<close>: NaN unless both operands are numbers.\<close>

fun num_add :: "jsnum \<Rightarrow> jsnum \<Rightarrow> jsnum" where
  "num_add (Num u) (Num v) = Num (u + v)"
| "num_add a b = NaN"

fun num_sub :: "jsnum \<Rightarrow> jsnum \<Rightarrow> jsnum" where
  "num_sub (Num u) (Num v) = Num (u - v)"
| "num_sub a b = NaN"

text \<open>
  \<^verbatim>\<open>v || 0\<close>: \<^verbatim>\<open>undefined\<close>, NaN and the number zero are falsy and give \<open>0\<close>,
  any other number gives itself.
\<close>

fun or_zero :: "jsnum \<Rightarrow> real" where
  "or_zero (Num r) = (if r = 0 then 0 else r)"
| "or_zero v = 0"

subsection \<open>Path commands of the font library\<close>

text \<open>
  The commands of an OpenType.js path, a tagged union: \<^verbatim>\<open>{type:'M', x, y}\<close>,
  \<^verbatim>\<open>{type:'L', x, y}\<close>, \<^verbatim>\<open>{type:'C', x1, y1, x2, y2, x, y}\<close>,
  \<^verbatim>\<open>{type:'Q', x1, y1, x, y}\<close> and \<^verbatim>\<open>{type:'Z'}\<close>. The functions \<open>src_type\<close>,
  \<open>src_x\<close>, ... read a property of such an object, \<open>Undefined\<close> where it has none.
\<close>

datatype path_command =
    MoveTo real real
  | LineTo real real
  | CurveTo real real real real real real
  | QuadTo real real real real
  | ClosePath

fun src_type :: "path_command \<Rightarrow> string" where
  "src_type (MoveTo px py) = ''M''"
| "src_type (LineTo px py) = ''L''"
| "src_type (CurveTo a1 b1 a2 b2 px py) = ''C''"
| "src_type (QuadTo a1 b1 px py) = ''Q''"
| "src_type ClosePath = ''Z''"

fun src_x :: "path_command \<Rightarrow> jsnum" where
  "src_x (MoveTo px py) = Num px"
| "src_x (LineTo px py) = Num px"
| "src_x (CurveTo a1 b1 a2 b2 px py) = Num px"
| "src_x (QuadTo a1 b1 px py) = Num px"
| "src_x ClosePath = Undefined"

fun src_y :: "path_command \<Rightarrow> jsnum" where
  "src_y (MoveTo px py) = Num py"
| "src_y (LineTo px py) = Num py"
| "src_y (CurveTo a1 b1 a2 b2 px py) = Num py"
| "src_y (QuadTo a1 b1 px py) = Num py"
| "src_y ClosePath = Undefined"

fun src_x1 :: "path_command \<Rightarrow> jsnum" where
  "src_x1 (CurveTo a1 b1 a2 b2 px py) = Num a1"
| "src_x1 (QuadTo a1 b1 px py) = Num a1"
| "src_x1 c = Undefined"

fun src_y1 :: "path_command \<Rightarrow> jsnum" where
  "src_y1 (CurveTo a1 b1 a2 b2 px py) = Num b1"
| "src_y1 (QuadTo a1 b1 px py) = Num b1"
| "src_y1 c = Undefined"

fun src_x2 :: "path_command \<Rightarrow> jsnum" where
  "src_x2 (CurveTo a1 b1 a2 b2 px py) = Num a2"
| "src_x2 c = Undefined"

fun src_y2 :: "path_command \<Rightarrow> jsnum" where
  "src_y2 (CurveTo a1 b1 a2 b2 px py) = Num b2"
| "src_y2 c = Undefined"

text \<open>A glyph: its path and the box \<^verbatim>\<open>getBoundingBox()\<close> returns for it.\<close>

record bounding_box =
  bb_x1 :: real
  bb_y1 :: real
  bb_x2 :: real
  bb_y2 :: real

record glyph =
  glyph_path :: "path_command list"
  glyph_bbox :: bounding_box

subsection \<open>The editor's state\<close>

text \<open>An entry of \<^verbatim>\<open>editableCommands\<close>; \<open>cmd_x\<close> is the property \<^verbatim>\<open>cmd.x\<close>.\<close>

record editable_cmd =
  cmd_type :: string
  cmd_x :: jsnum
  cmd_y :: jsnum
  cmd_originalX :: jsnum
  cmd_originalY :: jsnum
  cmd_x1 :: jsnum
  cmd_y1 :: jsnum
  cmd_originalX1 :: jsnum
  cmd_originalY1 :: jsnum
  cmd_x2 :: jsnum
  cmd_y2 :: jsnum
  cmd_originalX2 :: jsnum
  cmd_originalY2 :: jsnum

datatype point_type = PtMain | PtCp1 | PtCp2

record drag_point =
  cmdIndex :: nat
  pointType :: point_type

record rect =
  rect_width :: real
  rect_height :: real

text \<open>
  The fields of the class that the modelled methods read or write. What the script
  does to the page is kept as data: \<open>cursor\<close> is \<^verbatim>\<open>canvas.style.cursor\<close>,
  \<open>listeners\<close> the canvas events with a handler, \<open>controlsInstalled\<close> whether
  \<^verbatim>\<open>setupControls\<close> ran, \<open>canvasText\<close> the strings drawn with \<^verbatim>\<open>fillText\<close>,
  \<open>renders\<close> the number of calls of \<^verbatim>\<open>render\<close>, \<open>fontLoads\<close> the number of calls
  of \<^verbatim>\<open>opentype.load\<close> and \<open>consoleErrors\<close> the number of calls of
  \<^verbatim>\<open>console.error\<close>.
\<close>

record editor =
  glyph :: "glyph option"
  showControlPoints :: bool
  scale :: real
  offsetX :: real
  offsetY :: real
  originalPath :: "path_command list option"
  editableCommands :: "editable_cmd list"
  isDragging :: bool
  dragPoint :: "drag_point option"
  controlPointRadius :: real
  canvasRect :: "rect option"
  cursor :: string
  listeners :: "string list"
  controlsInstalled :: bool
  canvasText :: "string list"
  renders :: nat
  fontLoads :: nat
  consoleErrors :: nat

text \<open>The constructor's assignments.\<close>

definition new_editor :: editor where
  "new_editor =
     \<lparr> glyph = None, showControlPoints = True, scale = 1, offsetX = 0, offsetY = 0,
       originalPath = None, editableCommands = [], isDragging = False, dragPoint = None,
       controlPointRadius = 4, canvasRect = None, cursor = [], listeners = [],
       controlsInstalled = False, canvasText = [], renders = 0, fontLoads = 0,
       consoleErrors = 0 \<rparr>"

subsection \<open>parseGlyphPath\<close>

definition editable_of :: "path_command \<Rightarrow> editable_cmd" where
  "editable_of cmd =
     (let editableCmd =
            \<lparr> cmd_type = src_type cmd,
              cmd_x = Num (or_zero (src_x cmd)),
              cmd_y = Num (or_zero (src_y cmd)),
              cmd_originalX = Num (or_zero (src_x cmd)),
              cmd_originalY = Num (or_zero (src_y cmd)),
              cmd_x1 = Undefined, cmd_y1 = Undefined, cmd_originalX1 = Undefined, cmd_originalY1 = Undefined,
              cmd_x2 = Undefined, cmd_y2 = Undefined, cmd_originalX2 = Undefined, cmd_originalY2 = Undefined \<rparr>;
          editableCmd =
            (if src_x1 cmd \<noteq> Undefined
             then editableCmd \<lparr> cmd_x1 := src_x1 cmd, cmd_y1 := src_y1 cmd,
                    cmd_originalX1 := src_x1 cmd, cmd_originalY1 := src_y1 cmd \<rparr>
             else editableCmd);
          editableCmd =
            (if src_x2 cmd \<noteq> Undefined
             then editableCmd \<lparr> cmd_x2 := src_x2 cmd, cmd_y2 := src_y2 cmd,
                    cmd_originalX2 := src_x2 cmd, cmd_originalY2 := src_y2 cmd \<rparr>
             else editableCmd)
      in editableCmd)"

text \<open>The loop pushes one editable command for each command of the path, in order.\<close>

primrec parse_commands :: "path_command list \<Rightarrow> editable_cmd list" where
  "parse_commands [] = []"
| "parse_commands (cmd # commands) = editable_of cmd # parse_commands commands"

text \<open>
  \<^verbatim>\<open>this.originalPath.commands\<close> of a path that was never set throws; \<open>setup\<close>, the
  only caller, sets the path first.
\<close>

datatype js_error = TypeError

definition parseGlyphPath :: "editor \<Rightarrow> js_error + editor" where
  "parseGlyphPath s =
     (case originalPath s of
        None \<Rightarrow> Inl TypeError
      | Some commands \<Rightarrow> Inr (s \<lparr> editableCommands := parse_commands commands \<rparr>))"

subsection \<open>calculateOptimalScale\<close>

text \<open>
  Reads \<^verbatim>\<open>this.glyph.getBoundingBox()\<close> and \<^verbatim>\<open>this.canvasRect\<close>; either being
  \<^verbatim>\<open>null\<close> throws. \<^verbatim>\<open>Math.min\<close> is \<open>min\<close>.
\<close>

definition calculateOptimalScale :: "editor \<Rightarrow> js_error + editor" where
  "calculateOptimalScale s =
     (case glyph s of
        None \<Rightarrow> Inl TypeError
      | Some g \<Rightarrow>
          (case canvasRect s of
             None \<Rightarrow> Inl TypeError
           | Some r \<Rightarrow>
               (let bbox = glyph_bbox g;
                    glyphWidth = bb_x2 bbox - bb_x1 bbox;
                    glyphHeight = bb_y2 bbox - bb_y1 bbox;
                    canvasWidth = rect_width r * 0.8;
                    canvasHeight = rect_height r * 0.8;
                    scaleX = canvasWidth / glyphWidth;
                    scaleY = canvasHeight / glyphHeight;
                    newScale = min scaleX scaleY;
                    glyphCenterX = (bb_x1 bbox + bb_x2 bbox) / 2;
                    glyphCenterY = (bb_y1 bbox + bb_y2 bbox) / 2
                in Inr (s \<lparr> scale := newScale,
                            offsetX := rect_width r / 2 - glyphCenterX * newScale,
                            offsetY := rect_height r / 2 + glyphCenterY * newScale \<rparr>))))"

subsection \<open>transformPoint and inverseTransformPoint\<close>

definition transformPoint :: "editor \<Rightarrow> real \<Rightarrow> real \<Rightarrow> real \<times> real" where
  "transformPoint s px py = (offsetX s + px * scale s, offsetY s - py * scale s)"

definition inverseTransformPoint :: "editor \<Rightarrow> real \<Rightarrow> real \<Rightarrow> real \<times> real" where
  "inverseTransformPoint s px py = ((px - offsetX s) / scale s, - (py - offsetY s) / scale s)"

subsection \<open>findControlPoint\<close>

text \<open>
  The distance of the mouse from the image of a point under \<open>transformPoint\<close>, as the
  three checks of the loop body compute it.
\<close>

definition screen_distance :: "editor \<Rightarrow> real \<Rightarrow> real \<Rightarrow> real \<Rightarrow> real \<Rightarrow> real" where
  "screen_distance s mouseX mouseY px py =
     (let point = transformPoint s px py
      in sqrt ((mouseX - fst point)\<^sup>2 + (mouseY - snd point)\<^sup>2))"

text \<open>
  One check of the loop body: neither coordinate is \<^verbatim>\<open>undefined\<close> and the distance
  is at most the radius. A NaN coordinate makes the distance NaN, and the comparison
  false.
\<close>

definition point_hit :: "editor \<Rightarrow> real \<Rightarrow> real \<Rightarrow> jsnum \<Rightarrow> jsnum \<Rightarrow> bool" where
  "point_hit s mouseX mouseY vx vy =
     (vx \<noteq> Undefined \<and> vy \<noteq> Undefined
      \<and> (case vx of
            Num px \<Rightarrow>
              (case vy of
                 Num py \<Rightarrow> screen_distance s mouseX mouseY px py \<le> controlPointRadius s
               | _ \<Rightarrow> False)
          | _ \<Rightarrow> False))"

text \<open>The loop from index \<open>i\<close> on, over the commands that are left.\<close>

fun find_from :: "editor \<Rightarrow> real \<Rightarrow> real \<Rightarrow> nat \<Rightarrow> editable_cmd list \<Rightarrow> drag_point option" where
  "find_from s mouseX mouseY i [] = None"
| "find_from s mouseX mouseY i (cmd # rest) =
     (if point_hit s mouseX mouseY (cmd_x cmd) (cmd_y cmd)
      then Some \<lparr> cmdIndex = i, pointType = PtMain \<rparr>
      else if point_hit s mouseX mouseY (cmd_x1 cmd) (cmd_y1 cmd)
      then Some \<lparr> cmdIndex = i, pointType = PtCp1 \<rparr>
      else if point_hit s mouseX mouseY (cmd_x2 cmd) (cmd_y2 cmd)
      then Some \<lparr> cmdIndex = i, pointType = PtCp2 \<rparr>
      else find_from s mouseX mouseY (Suc i) rest)"

definition findControlPoint :: "editor \<Rightarrow> real \<Rightarrow> real \<Rightarrow> drag_point option" where
  "findControlPoint s mouseX mouseY = find_from s mouseX mouseY 0 (editableCommands s)"

subsection \<open>Mouse events\<close>

text \<open>
  A mouse event, with the canvas's bounding rectangle at the time of the event, which
  \<^verbatim>\<open>getMousePos\<close> reads from the page.
\<close>

record mouse_event =
  clientX :: real
  clientY :: real
  rectLeft :: real
  rectTop :: real

definition getMousePos :: "mouse_event \<Rightarrow> real \<times> real" where
  "getMousePos e = (clientX e - rectLeft e, clientY e - rectTop e)"

text \<open>\<^verbatim>\<open>render\<close> draws from the state and changes none of the fields modelled.\<close>

definition render :: "editor \<Rightarrow> editor" where
  "render s = s \<lparr> renders := Suc (renders s) \<rparr>"

definition onMouseDown :: "editor \<Rightarrow> mouse_event \<Rightarrow> editor" where
  "onMouseDown s e =
     (if \<not> showControlPoints s then s
      else
        (let mousePos = getMousePos e;
             s1 = s \<lparr> dragPoint := findControlPoint s (fst mousePos) (snd mousePos) \<rparr>
         in if dragPoint s1 \<noteq> None
            then s1 \<lparr> isDragging := True, cursor := ''grabbing'' \<rparr>
            else s1))"

text \<open>
  The branch of \<^verbatim>\<open>onMouseMove\<close> for a dragged main point. \<open>cmd\<close> is the dragged
  command, already read from the list at index \<open>i\<close>.
\<close>

definition drag_main :: "editable_cmd list \<Rightarrow> nat \<Rightarrow> real \<times> real \<Rightarrow> editable_cmd list" where
  "drag_main cmds i worldPos =
     (let cmd = cmds ! i;
          deltaX = num_sub (Num (fst worldPos)) (cmd_x cmd);
          deltaY = num_sub (Num (snd worldPos)) (cmd_y cmd);
          cmd = cmd \<lparr> cmd_x := Num (fst worldPos), cmd_y := Num (snd worldPos) \<rparr>;
          cmd = (if cmd_x2 cmd \<noteq> Undefined
                 then cmd \<lparr> cmd_x2 := num_add (cmd_x2 cmd) deltaX,
                            cmd_y2 := num_add (cmd_y2 cmd) deltaY \<rparr>
                 else cmd);
          cmds = cmds [i := cmd]
      in if int i < int (length cmds) - 1
         then (let nextCmd = cmds ! (i + 1)
               in if cmd_x1 nextCmd \<noteq> Undefined
                  then cmds [i + 1 := nextCmd \<lparr> cmd_x1 := num_add (cmd_x1 nextCmd) deltaX,
                                                cmd_y1 := num_add (cmd_y1 nextCmd) deltaY \<rparr>]
                  else cmds)
         else cmds)"

text \<open>
  \<^verbatim>\<open>onMouseMove\<close>. An index past the end of the list reads \<^verbatim>\<open>undefined\<close> for
  \<^verbatim>\<open>cmd\<close>, and the first access of a property of it throws before anything is
  written.
\<close>

definition onMouseMove :: "editor \<Rightarrow> mouse_event \<Rightarrow> js_error + editor" where
  "onMouseMove s e =
     (let mousePos = getMousePos e in
      if isDragging s \<and> dragPoint s \<noteq> None then
        (case dragPoint s of
           None \<Rightarrow> Inr s
         | Some dp \<Rightarrow>
             (let worldPos = inverseTransformPoint s (fst mousePos) (snd mousePos);
                  cmds = editableCommands s;
                  i = cmdIndex dp
              in if length cmds \<le> i then Inl TypeError
                 else
                   (case pointType dp of
                      PtMain \<Rightarrow> Inr (render (s \<lparr> editableCommands := drag_main cmds i worldPos \<rparr>))
                    | PtCp1 \<Rightarrow>
                        Inr (render (s \<lparr> editableCommands :=
                          cmds [i := (cmds ! i) \<lparr> cmd_x1 := Num (fst worldPos),
                                                  cmd_y1 := Num (snd worldPos) \<rparr>] \<rparr>))
                    | PtCp2 \<Rightarrow>
                        Inr (render (s \<lparr> editableCommands :=
                          cmds [i := (cmds ! i) \<lparr> cmd_x2 := Num (fst worldPos),
                                                  cmd_y2 := Num (snd worldPos) \<rparr>] \<rparr>)))))
      else if showControlPoints s then
        (let hoverPoint = findControlPoint s (fst mousePos) (snd mousePos)
         in Inr (s \<lparr> cursor := (if hoverPoint \<noteq> None then ''grab'' else ''crosshair'') \<rparr>))
      else Inr s)"

text \<open>
  \<^verbatim>\<open>onMouseMove\<close> as \<^verbatim>\<open>src/js/site.js\<close> has it: the branch for a main point
  writes the main point only.
\<close>

definition onMouseMove_js_site :: "editor \<Rightarrow> mouse_event \<Rightarrow> js_error + editor" where
  "onMouseMove_js_site s e =
     (let mousePos = getMousePos e in
      if isDragging s \<and> dragPoint s \<noteq> None then
        (case dragPoint s of
           None \<Rightarrow> Inr s
         | Some dp \<Rightarrow>
             (let worldPos = inverseTransformPoint s (fst mousePos) (snd mousePos);
                  cmds = editableCommands s;
                  i = cmdIndex dp
              in if length cmds \<le> i then Inl TypeError
                 else
                   (case pointType dp of
                      PtMain \<Rightarrow>
                        Inr (render (s \<lparr> editableCommands :=
                          cmds [i := (cmds ! i) \<lparr> cmd_x := Num (fst worldPos),
                                                  cmd_y := Num (snd worldPos) \<rparr>] \<rparr>))
                    | PtCp1 \<Rightarrow>
                        Inr (render (s \<lparr> editableCommands :=
                          cmds [i := (cmds ! i) \<lparr> cmd_x1 := Num (fst worldPos),
                                                  cmd_y1 := Num (snd worldPos) \<rparr>] \<rparr>))
                    | PtCp2 \<Rightarrow>
                        Inr (render (s \<lparr> editableCommands :=
                          cmds [i := (cmds ! i) \<lparr> cmd_x2 := Num (fst worldPos),
                                                  cmd_y2 := Num (snd worldPos) \<rparr>] \<rparr>)))))
      else if showControlPoints s then
        (let hoverPoint = findControlPoint s (fst mousePos) (snd mousePos)
         in Inr (s \<lparr> cursor := (if hoverPoint \<noteq> None then ''grab'' else ''crosshair'') \<rparr>))
      else Inr s)"

definition onMouseUp :: "editor \<Rightarrow> editor" where
  "onMouseUp s =
     s \<lparr> isDragging := False, dragPoint := None,
         cursor := (if showControlPoints s then ''crosshair'' else ''default'') \<rparr>"

subsection \<open>resetGlyph\<close>

definition reset_cmd :: "editable_cmd \<Rightarrow> editable_cmd" where
  "reset_cmd cmd =
     (let cmd = cmd \<lparr> cmd_x := cmd_originalX cmd, cmd_y := cmd_originalY cmd \<rparr>;
          cmd = (if cmd_originalX1 cmd \<noteq> Undefined
                 then cmd \<lparr> cmd_x1 := cmd_originalX1 cmd, cmd_y1 := cmd_originalY1 cmd \<rparr>
                 else cmd);
          cmd = (if cmd_originalX2 cmd \<noteq> Undefined
                 then cmd \<lparr> cmd_x2 := cmd_originalX2 cmd, cmd_y2 := cmd_originalY2 cmd \<rparr>
                 else cmd)
      in cmd)"

primrec reset_commands :: "editable_cmd list \<Rightarrow> editable_cmd list" where
  "reset_commands [] = []"
| "reset_commands (cmd # rest) = reset_cmd cmd # reset_commands rest"

definition resetGlyph :: "editor \<Rightarrow> editor" where
  "resetGlyph s = render (s \<lparr> editableCommands := reset_commands (editableCommands s) \<rparr>)"

subsection \<open>setup\<close>

text \<open>
  What \<^verbatim>\<open>setup\<close> finds on the page and on the network: the bounding rectangle of
  the canvas with id \<^verbatim>\<open>glyphEditorCanvas\<close> (\<open>None\<close> when the page has none), and
  the outcome of \<^verbatim>\<open>await opentype.load(fontPath)\<close>, \<open>Inl\<close> when it throws and
  otherwise the glyph that \<^verbatim>\<open>charToGlyph('&')\<close> returns for the font.
\<close>

record page =
  page_canvas :: "rect option"
  page_font :: "js_error + glyph"

definition renderFallback :: "editor \<Rightarrow> editor" where
  "renderFallback s =
     s \<lparr> canvasText := canvasText s @ [''Font failed to load'', ''Check console for details''] \<rparr>"

definition setupControls :: "editor \<Rightarrow> editor" where
  "setupControls s = s \<lparr> controlsInstalled := True \<rparr>"

definition setupEventListeners :: "editor \<Rightarrow> editor" where
  "setupEventListeners s =
     s \<lparr> listeners := listeners s @ [''mousedown'', ''mousemove'', ''mouseup'', ''mouseleave''] \<rparr>"

text \<open>The \<^verbatim>\<open>catch\<close> block: \<^verbatim>\<open>console.error\<close>, then \<^verbatim>\<open>renderFallback\<close>.\<close>

definition setup_catch :: "editor \<Rightarrow> editor" where
  "setup_catch s = renderFallback (s \<lparr> consoleErrors := Suc (consoleErrors s) \<rparr>)"

text \<open>\<^verbatim>\<open>setup\<close>, named \<open>setup_editor\<close> here.\<close>

definition setup_editor :: "page \<Rightarrow> editor \<Rightarrow> editor" where
  "setup_editor pg s =
     (case page_canvas pg of
        None \<Rightarrow> s
      | Some r \<Rightarrow>
          (let s = s \<lparr> canvasRect := Some r,
                       offsetX := rect_width r / 2, offsetY := rect_height r / 2 \<rparr>;
               s = s \<lparr> fontLoads := Suc (fontLoads s) \<rparr>
           in case page_font pg of
                Inl err \<Rightarrow> setup_catch s
              | Inr g \<Rightarrow>
                  (let s = s \<lparr> glyph := Some g, originalPath := Some (glyph_path g) \<rparr>
                   in case parseGlyphPath s of
                        Inl err \<Rightarrow> setup_catch s
                      | Inr s \<Rightarrow>
                          (case calculateOptimalScale s of
                             Inl err \<Rightarrow> setup_catch s
                           | Inr s \<Rightarrow> render (setupEventListeners (setupControls s))))))"

subsection \<open>Sequences of mouse events\<close>

text \<open>
  The four listeners of \<^verbatim>\<open>setupEventListeners\<close>: \<^verbatim>\<open>mouseup\<close> and
  \<^verbatim>\<open>mouseleave\<close> both call \<^verbatim>\<open>onMouseUp\<close>. A handler that throws leaves the state
  as it was, and the page goes on to the next event.
\<close>

datatype canvas_event =
    MouseDown mouse_event
  | MouseMove mouse_event
  | MouseUp mouse_event
  | MouseLeave mouse_event

fun dispatch :: "editor \<Rightarrow> canvas_event \<Rightarrow> editor" where
  "dispatch s (MouseDown e) = onMouseDown s e"
| "dispatch s (MouseMove e) = (case onMouseMove s e of Inl err \<Rightarrow> s | Inr s' \<Rightarrow> s')"
| "dispatch s (MouseUp e) = onMouseUp s"
| "dispatch s (MouseLeave e) = onMouseUp s"

primrec run :: "editor \<Rightarrow> canvas_event list \<Rightarrow> editor" where
  "run s [] = s"
| "run s (ev # evs) = run (dispatch s ev) evs"

section \<open>The transform in double arithmetic\<close>

subsection \<open>Rounding to a double\<close>

text \<open>
  A finite double is identified with the real it denotes. \<open>pow2 n\<close> is the power of
  two with the exponent \<open>n\<close>, an integer of either sign.
\<close>

definition pow2 :: "int \<Rightarrow> real" where
  "pow2 n = (if 0 \<le> n then 2 ^ nat n else 1 / 2 ^ nat (- n))"

text \<open>
  Rounding to the nearest integer, a tie going to the even one.
\<close>

definition round_even :: "real \<Rightarrow> int" where
  "round_even v =
     (let f = \<lfloor>v\<rfloor>; r = v - of_int f
      in if r < 1 / 2 then f else if 1 / 2 < r then f + 1 else if even f then f else f + 1)"

text \<open>
  The exponent \<open>e\<close> with \<open>pow2 e \<le> \<bar>v\<bar>\<close> and \<open>\<bar>v\<bar> < pow2 (e + 1)\<close>, for \<open>v\<close> other
  than zero, computed on integers.
\<close>

definition binade :: "real \<Rightarrow> int" where
  "binade v =
     (if 1 \<le> \<bar>v\<bar> then int (floorlog 2 (nat \<lfloor>\<bar>v\<bar>\<rfloor>)) - 1
      else - int (floorlog 2 (nat (\<lceil>1 / \<bar>v\<bar>\<rceil> - 1))))"

text \<open>
  \<open>fl64 v\<close> is the double nearest to the real \<open>v\<close>, a tie going to the even
  significand, which is the rounding of every arithmetic operator of JavaScript. From
  \<open>pow2 e\<close> to \<open>pow2 (e + 1)\<close> the doubles are the multiples of \<open>pow2 (e - 52)\<close>. The
  result is \<open>None\<close> where the script leaves the normal finite doubles: below
  \<open>pow2 (- 1022)\<close> in magnitude, where the doubles are spaced differently, and where
  the rounded value reaches \<open>pow2 1024\<close>, where the script computes Infinity. Signed
  zeros are one zero.
\<close>

definition fl64 :: "real \<Rightarrow> real option" where
  "fl64 v =
     (if v = 0 then Some 0
      else
        (let e = binade v;
             q = pow2 (e - 52);
             r = of_int (round_even (v / q)) * q
         in if e < - 1022 \<or> pow2 1024 \<le> \<bar>r\<bar> then None else Some r))"

text \<open>
  The operators \<^verbatim>\<open>+\<close>, \<^verbatim>\<open>-\<close>, \<^verbatim>\<open>*\<close> and \<^verbatim>\<open>/\<close> on doubles: the exact result,
  rounded once. A division by zero gives Infinity or NaN in the script and \<open>None\<close>
  here. Negation and \<^verbatim>\<open>Math.min\<close> are exact.
\<close>

definition f64_add :: "real \<Rightarrow> real \<Rightarrow> real option" where
  "f64_add a b = fl64 (a + b)"

definition f64_sub :: "real \<Rightarrow> real \<Rightarrow> real option" where
  "f64_sub a b = fl64 (a - b)"

definition f64_mul :: "real \<Rightarrow> real \<Rightarrow> real option" where
  "f64_mul a b = fl64 (a * b)"

definition f64_div :: "real \<Rightarrow> real \<Rightarrow> real option" where
  "f64_div a b = (if b = 0 then None else fl64 (a / b))"

text \<open>The double that the literal \<^verbatim>\<open>0.8\<close> denotes.\<close>

definition double_0_8 :: real where
  "double_0_8 = 3602879701896397 / 4503599627370496"

subsection \<open>calculateOptimalScale, transformPoint and inverseTransformPoint\<close>

text \<open>
  The three functions with every operator rounding, in the order of the source. The
  result is \<open>None\<close> when an intermediate value leaves the normal finite doubles.
\<close>

definition calculateOptimalScale_f64 :: "editor \<Rightarrow> (js_error + editor) option" where
  "calculateOptimalScale_f64 s =
     (case glyph s of
        None \<Rightarrow> Some (Inl TypeError)
      | Some g \<Rightarrow>
          (case canvasRect s of
             None \<Rightarrow> Some (Inl TypeError)
           | Some r \<Rightarrow>
               (let bbox = glyph_bbox g in
                do {
                  glyphWidth \<leftarrow> f64_sub (bb_x2 bbox) (bb_x1 bbox);
                  glyphHeight \<leftarrow> f64_sub (bb_y2 bbox) (bb_y1 bbox);
                  canvasWidth \<leftarrow> f64_mul (rect_width r) double_0_8;
                  canvasHeight \<leftarrow> f64_mul (rect_height r) double_0_8;
                  scaleX \<leftarrow> f64_div canvasWidth glyphWidth;
                  scaleY \<leftarrow> f64_div canvasHeight glyphHeight;
                  let newScale = min scaleX scaleY;
                  sumX \<leftarrow> f64_add (bb_x1 bbox) (bb_x2 bbox);
                  glyphCenterX \<leftarrow> f64_div sumX 2;
                  sumY \<leftarrow> f64_add (bb_y1 bbox) (bb_y2 bbox);
                  glyphCenterY \<leftarrow> f64_div sumY 2;
                  halfWidth \<leftarrow> f64_div (rect_width r) 2;
                  centerXScaled \<leftarrow> f64_mul glyphCenterX newScale;
                  newOffsetX \<leftarrow> f64_sub halfWidth centerXScaled;
                  halfHeight \<leftarrow> f64_div (rect_height r) 2;
                  centerYScaled \<leftarrow> f64_mul glyphCenterY newScale;
                  newOffsetY \<leftarrow> f64_add halfHeight centerYScaled;
                  Some (Inr (s \<lparr> scale := newScale, offsetX := newOffsetX, offsetY := newOffsetY \<rparr>))
                })))"

definition transformPoint_f64 :: "editor \<Rightarrow> real \<Rightarrow> real \<Rightarrow> (real \<times> real) option" where
  "transformPoint_f64 s px py =
     do {
       xScaled \<leftarrow> f64_mul px (scale s);
       screenX \<leftarrow> f64_add (offsetX s) xScaled;
       yScaled \<leftarrow> f64_mul py (scale s);
       screenY \<leftarrow> f64_sub (offsetY s) yScaled;
       Some (screenX, screenY)
     }"

definition inverseTransformPoint_f64 :: "editor \<Rightarrow> real \<Rightarrow> real \<Rightarrow> (real \<times> real) option" where
  "inverseTransformPoint_f64 s px py =
     do {
       xShifted \<leftarrow> f64_sub px (offsetX s);
       worldX \<leftarrow> f64_div xShifted (scale s);
       yShifted \<leftarrow> f64_sub py (offsetY s);
       worldY \<leftarrow> f64_div (- yShifted) (scale s);
       Some (worldX, worldY)
     }"

section \<open>Notions of the specification\<close>

subsection \<open>Shadow copies\<close>

text \<open>The six original-position fields of a command.\<close>

definition shadow ::
  "editable_cmd \<Rightarrow> jsnum \<times> jsnum \<times> jsnum \<times> jsnum \<times> jsnum \<times> jsnum" where
  "shadow c = (cmd_originalX c, cmd_originalY c, cmd_originalX1 c, cmd_originalY1 c,
               cmd_originalX2 c, cmd_originalY2 c)"

text \<open>
  The current coordinates of a command equal its shadow copy: the main point always,
  a control point whenever its original is present.
\<close>

definition matches_shadow :: "editable_cmd \<Rightarrow> bool" where
  "matches_shadow c =
     (cmd_x c = cmd_originalX c \<and> cmd_y c = cmd_originalY c
      \<and> (cmd_originalX1 c \<noteq> Undefined \<longrightarrow> cmd_x1 c = cmd_originalX1 c \<and> cmd_y1 c = cmd_originalY1 c)
      \<and> (cmd_originalX2 c \<noteq> Undefined \<longrightarrow> cmd_x2 c = cmd_originalX2 c \<and> cmd_y2 c = cmd_originalY2 c))"

subsection \<open>Coordinate fields and type tags\<close>

text \<open>Which of \<^verbatim>\<open>x, y, x1, y1, x2, y2\<close> a command holds, in this order.\<close>

definition coordinate_fields :: "editable_cmd \<Rightarrow> bool list" where
  "coordinate_fields c =
     [cmd_x c \<noteq> Undefined, cmd_y c \<noteq> Undefined, cmd_x1 c \<noteq> Undefined, cmd_y1 c \<noteq> Undefined,
      cmd_x2 c \<noteq> Undefined, cmd_y2 c \<noteq> Undefined]"

text \<open>
  The specification's reading: \<^verbatim>\<open>M\<close> and \<^verbatim>\<open>L\<close> hold a main point only,
  \<^verbatim>\<open>Q\<close> one control point more, \<^verbatim>\<open>C\<close> two, \<^verbatim>\<open>Z\<close> no coordinate at all.
\<close>

definition fields_mirror_type :: "editable_cmd \<Rightarrow> bool" where
  "fields_mirror_type c =
     (if cmd_type c = ''M'' \<or> cmd_type c = ''L''
      then coordinate_fields c = [True, True, False, False, False, False]
      else if cmd_type c = ''Q''
      then coordinate_fields c = [True, True, True, True, False, False]
      else if cmd_type c = ''C''
      then coordinate_fields c = [True, True, True, True, True, True]
      else if cmd_type c = ''Z''
      then coordinate_fields c = [False, False, False, False, False, False]
      else False)"

text \<open>
  What \<open>parseGlyphPath\<close> produces: as above, but a \<^verbatim>\<open>Z\<close> command holds a main
  point, at the origin, and no control point.
\<close>

definition fields_as_parsed :: "editable_cmd \<Rightarrow> bool" where
  "fields_as_parsed c =
     (if cmd_type c = ''M'' \<or> cmd_type c = ''L''
      then coordinate_fields c = [True, True, False, False, False, False]
      else if cmd_type c = ''Q''
      then coordinate_fields c = [True, True, True, True, False, False]
      else if cmd_type c = ''C''
      then coordinate_fields c = [True, True, True, True, True, True]
      else if cmd_type c = ''Z''
      then cmd_x c = Num 0 \<and> cmd_y c = Num 0
           \<and> coordinate_fields c = [True, True, False, False, False, False]
      else False)"

subsection \<open>Points within the radius\<close>






text \<open>
  The order in which the loop checks the points: by command, and on one command the
  main point, then the first control point, then the second.
\<close>

fun point_rank :: "point_type \<Rightarrow> nat" where
  "point_rank PtMain = 0"
| "point_rank PtCp1 = 1"
| "point_rank PtCp2 = 2"


subsection \<open>The drag state\<close>

definition drag_inv :: "editor \<Rightarrow> bool" where
  "drag_inv s = (isDragging s \<longrightarrow> dragPoint s \<noteq> None)"

text \<open>
  The one press that breaks the invariant: the points are shown, a drag is in progress
  and the press hits no point.
\<close>

definition press_misses_during_drag :: "editor \<Rightarrow> mouse_event \<Rightarrow> bool" where
  "press_misses_during_drag s e =
     (showControlPoints s \<and> isDragging s
      \<and> findControlPoint s (fst (getMousePos e)) (snd (getMousePos e)) = None)"

text \<open>No \<^verbatim>\<open>mousedown\<close> of the sequence is such a press in the state it is handled in.\<close>

fun no_missed_press_during_drag :: "editor \<Rightarrow> canvas_event list \<Rightarrow> bool" where
  "no_missed_press_during_drag s [] = True"
| "no_missed_press_during_drag s (MouseDown e # evs) =
     (\<not> press_misses_during_drag s e
      \<and> no_missed_press_during_drag (dispatch s (MouseDown e)) evs)"
| "no_missed_press_during_drag s (ev # evs) = no_missed_press_during_drag (dispatch s ev) evs"

subsection \<open>The fit up to rounding\<close>

text \<open>
  The centre of the bounding box as \<^verbatim>\<open>calculateOptimalScale\<close> computes it.
\<close>

definition box_centre_f64 :: "bounding_box \<Rightarrow> (real \<times> real) option" where
  "box_centre_f64 bbox =
     do {
       sumX \<leftarrow> f64_add (bb_x1 bbox) (bb_x2 bbox);
       glyphCenterX \<leftarrow> f64_div sumX 2;
       sumY \<leftarrow> f64_add (bb_y1 bbox) (bb_y2 bbox);
       glyphCenterY \<leftarrow> f64_div sumY 2;
       Some (glyphCenterX, glyphCenterY)
     }"

text \<open>
  The distance by which rounding can move the image of a corner along one axis: the
  canvas side plus the scaled coordinate of the farther edge of the box, divided by
  \<open>2 ^ 50\<close>.
\<close>

definition rounding_allowance :: "real \<Rightarrow> real \<Rightarrow> real \<Rightarrow> real \<Rightarrow> real" where
  "rounding_allowance side lo hi k = (side + max \<bar>lo\<bar> \<bar>hi\<bar> * k) / 2 ^ 50"

subsection \<open>A page to evaluate on\<close>

text \<open>
  A glyph of four commands in a box of 20 by 20 font units, on a canvas of 100 by 100
  pixels: \<open>setup_editor\<close> gives the scale 4 and the offsets 10 and 90.
\<close>

definition sample_glyph :: glyph where
  "sample_glyph =
     \<lparr> glyph_path = [MoveTo 0 0, CurveTo 10 0 20 5 20 10, CurveTo 20 15 10 20 0 20, ClosePath],
       glyph_bbox = \<lparr> bb_x1 = 0, bb_y1 = 0, bb_x2 = 20, bb_y2 = 20 \<rparr> \<rparr>"

definition sample_page :: page where
  "sample_page =
     \<lparr> page_canvas = Some \<lparr> rect_width = 100, rect_height = 100 \<rparr>, page_font = Inr sample_glyph \<rparr>"

definition sample_editor :: editor where
  "sample_editor = setup_editor sample_page new_editor"

text \<open>A mouse event at a position of the canvas, the canvas in the page's corner.\<close>

definition at_pos :: "real \<Rightarrow> real \<Rightarrow> mouse_event" where
  "at_pos mx my = \<lparr> clientX = mx, clientY = my, rectLeft = 0, rectTop = 0 \<rparr>"

text \<open>
  Pressing at (90, 50), where the transform shows the main point of the second command,
  starts a drag of that point; moving to (94, 46) drags it by one font unit in each
  axis.
\<close>

definition pressed_editor :: editor where
  "pressed_editor = onMouseDown sample_editor (at_pos 90 50)"

text \<open>
  The same page under \<^verbatim>\<open>src/js/site.js\<close>, whose constructor sets the radius 8,
  after the same press.
\<close>

definition js_site_pressed :: editor where
  "js_site_pressed =
     onMouseDown (setup_editor sample_page (new_editor \<lparr> controlPointRadius := 8 \<rparr>))
       (at_pos 90 50)"

definition sample_drag :: "canvas_event list" where
  "sample_drag = [MouseDown (at_pos 90 50), MouseMove (at_pos 94 46), MouseUp (at_pos 94 46)]"

text \<open>
  Two transform states for the round trip: the scale 7 with no offset, and the double
  nearest to 0.4 as the scale with the offsets 150.
\<close>

definition sevenfold :: editor where
  "sevenfold = new_editor \<lparr> scale := 7 \<rparr>"

definition centred :: editor where
  "centred =
     new_editor \<lparr> scale := 3602879701896397 / 9007199254740992, offsetX := 150, offsetY := 150 \<rparr>"

text \<open>
  A glyph in the box from (40, -20) to (700, 720) on a canvas of 300 by 300 pixels,
  and the state that \<open>calculateOptimalScale_f64\<close> gives for it.
\<close>

definition tall_glyph :: glyph where
  "tall_glyph =
     \<lparr> glyph_path = [MoveTo 40 (- 20), LineTo 700 (- 20), LineTo 700 720, LineTo 40 720, ClosePath],
       glyph_bbox = \<lparr> bb_x1 = 40, bb_y1 = - 20, bb_x2 = 700, bb_y2 = 720 \<rparr> \<rparr>"

definition tall_editor :: editor where
  "tall_editor =
     new_editor \<lparr> glyph := Some tall_glyph,
                  canvasRect := Some \<lparr> rect_width = 300, rect_height = 300 \<rparr> \<rparr>"

definition tall_fitted :: editor where
  "tall_fitted =
     tall_editor \<lparr> scale := 1460626906174215 / 4503599627370496, offsetX := 30,
                   offsetY := 1158944688736865 / 4398046511104 \<rparr>"

section \<open>Properties\<close>

subsection \<open>Evaluating on the sample page\<close>

lemma sqrt_le_iff_sq: "0 \<le> r \<Longrightarrow> sqrt v \<le> r \<longleftrightarrow> v \<le> r\<^sup>2"
  by (metis real_sqrt_le_iff real_sqrt_abs abs_of_nonneg)

lemma point_hit_eval:
  "0 \<le> controlPointRadius s \<Longrightarrow>
   point_hit s mx my (Num px) (Num py) \<longleftrightarrow>
     (mx - (offsetX s + px * scale s))\<^sup>2 + (my - (offsetY s - py * scale s))\<^sup>2
       \<le> (controlPointRadius s)\<^sup>2"
  "point_hit s mx my Undefined vy = False"
  "point_hit s mx my vx Undefined = False"
  by (simp_all add: point_hit_def screen_distance_def transformPoint_def sqrt_le_iff_sq)

lemmas setup_defs = setup_editor_def setup_catch_def renderFallback_def parseGlyphPath_def
  calculateOptimalScale_def render_def setupControls_def setupEventListeners_def Let_def

lemma sample_fields:
  "scale sample_editor = 4" "offsetX sample_editor = 10" "offsetY sample_editor = 90"
  "controlPointRadius sample_editor = 4" "showControlPoints sample_editor = True"
  "isDragging sample_editor = False" "dragPoint sample_editor = None"
  by (simp_all add: sample_editor_def setup_defs sample_page_def sample_glyph_def new_editor_def)

lemma sample_commands:
  "editableCommands sample_editor =
     [editable_of (MoveTo 0 0), editable_of (CurveTo 10 0 20 5 20 10),
      editable_of (CurveTo 20 15 10 20 0 20), editable_of ClosePath]"
  by (simp add: sample_editor_def setup_defs sample_page_def sample_glyph_def new_editor_def)

lemmas sample_eval = sample_fields sample_commands editable_of_def Let_def
  point_hit_eval findControlPoint_def getMousePos_def at_pos_def

lemma pressed_editor_eq:
  "pressed_editor =
     sample_editor \<lparr> dragPoint := Some \<lparr> cmdIndex = 1, pointType = PtMain \<rparr>,
                     isDragging := True, cursor := ''grabbing'' \<rparr>"
  by (simp add: pressed_editor_def onMouseDown_def sample_eval)

lemma pressed_fields:
  "isDragging pressed_editor = True"
  "dragPoint pressed_editor = Some \<lparr> cmdIndex = 1, pointType = PtMain \<rparr>"
  "scale pressed_editor = 4" "offsetX pressed_editor = 10" "offsetY pressed_editor = 90"
  "editableCommands pressed_editor = editableCommands sample_editor"
  by (simp_all add: pressed_editor_eq sample_fields)

lemma pressed_world_pos:
  "inverseTransformPoint pressed_editor (fst (getMousePos (at_pos 94 46)))
     (snd (getMousePos (at_pos 94 46))) = (21, 11)"
  by (simp add: inverseTransformPoint_def pressed_fields getMousePos_def at_pos_def)

subsection \<open>Dragging a main point\<close>

lemma drag_main_length: "length (drag_main cmds i w) = length cmds"
  by (simp add: drag_main_def Let_def)

lemma drag_main_dragged:
  assumes "i < length cmds"
  shows "cmd_x (drag_main cmds i w ! i) = Num (fst w)"
    and "cmd_y (drag_main cmds i w ! i) = Num (snd w)"
    and "cmd_x2 (cmds ! i) \<noteq> Undefined \<Longrightarrow>
           cmd_x2 (drag_main cmds i w ! i)
             = num_add (cmd_x2 (cmds ! i)) (num_sub (Num (fst w)) (cmd_x (cmds ! i)))
         \<and> cmd_y2 (drag_main cmds i w ! i)
             = num_add (cmd_y2 (cmds ! i)) (num_sub (Num (snd w)) (cmd_y (cmds ! i)))"
  using assms by (simp_all add: drag_main_def Let_def nth_list_update)

lemma drag_main_next:
  assumes "Suc i < length cmds" "cmd_x1 (cmds ! Suc i) \<noteq> Undefined"
  shows "cmd_x1 (drag_main cmds i w ! Suc i)
           = num_add (cmd_x1 (cmds ! Suc i)) (num_sub (Num (fst w)) (cmd_x (cmds ! i)))"
    and "cmd_y1 (drag_main cmds i w ! Suc i)
           = num_add (cmd_y1 (cmds ! Suc i)) (num_sub (Num (snd w)) (cmd_y (cmds ! i)))"
  using assms by (simp_all add: drag_main_def Let_def nth_list_update)

lemma onMouseMove_main:
  assumes "isDragging s" "dragPoint s = Some \<lparr> cmdIndex = i, pointType = PtMain \<rparr>"
    and "i < length (editableCommands s)"
  shows "onMouseMove s e =
           Inr (render (s \<lparr> editableCommands :=
             drag_main (editableCommands s) i
               (inverseTransformPoint s (fst (getMousePos e)) (snd (getMousePos e))) \<rparr>))"
  using assms by (simp add: onMouseMove_def Let_def)

text \<open>
  \<open>onMouseMove\<close> of \<^verbatim>\<open>src/unnamed/part_000\<close>, in the model's exact arithmetic.
  While a drag of a main point is in progress it puts the main point of the dragged
  command at the mouse's position in font units. With \<open>(dx, dy)\<close> the difference between
  that position and the point's old one, the command's second control point, when the
  command has one, and the first control point of the next command, when there is a
  next command and it has one, are moved by \<open>(dx, dy)\<close> too.
\<close>

lemma part_000_main_drag_moves_control_points:
  assumes drag: "isDragging s" "dragPoint s = Some \<lparr> cmdIndex = i, pointType = PtMain \<rparr>"
    and i: "i < length (editableCommands s)"
    and old: "cmd_x (editableCommands s ! i) = Num ox" "cmd_y (editableCommands s ! i) = Num oy"
    and new: "inverseTransformPoint s (fst (getMousePos e)) (snd (getMousePos e))
                = (ox + dx, oy + dy)"
  shows "\<exists>s'. onMouseMove s e = Inr s'
      \<and> length (editableCommands s') = length (editableCommands s)
      \<and> cmd_x (editableCommands s' ! i) = Num (ox + dx)
      \<and> cmd_y (editableCommands s' ! i) = Num (oy + dy)
      \<and> (\<forall>a b. cmd_x2 (editableCommands s ! i) = Num a \<longrightarrow>
                cmd_y2 (editableCommands s ! i) = Num b \<longrightarrow>
                cmd_x2 (editableCommands s' ! i) = Num (a + dx)
                \<and> cmd_y2 (editableCommands s' ! i) = Num (b + dy))
      \<and> (\<forall>a b. Suc i < length (editableCommands s) \<longrightarrow>
                cmd_x1 (editableCommands s ! Suc i) = Num a \<longrightarrow>
                cmd_y1 (editableCommands s ! Suc i) = Num b \<longrightarrow>
                cmd_x1 (editableCommands s' ! Suc i) = Num (a + dx)
                \<and> cmd_y1 (editableCommands s' ! Suc i) = Num (b + dy))"
proof -
  define w where "w = inverseTransformPoint s (fst (getMousePos e)) (snd (getMousePos e))"
  define cmds where "cmds = editableCommands s"
  define cmds' where "cmds' = drag_main cmds i w"
  define s' where "s' = render (s \<lparr> editableCommands := cmds' \<rparr>)"
  have w: "fst w = ox + dx" "snd w = oy + dy"
    using new by (simp_all add: w_def)
  have i': "i < length cmds"
    using i by (simp add: cmds_def)
  have deltaX: "num_sub (Num (fst w)) (cmd_x (cmds ! i)) = Num dx"
    and deltaY: "num_sub (Num (snd w)) (cmd_y (cmds ! i)) = Num dy"
    using old w by (simp_all add: cmds_def)
  have result: "onMouseMove s e = Inr s'"
    using onMouseMove_main [OF drag i, of e] by (simp add: s'_def cmds'_def cmds_def w_def)
  have commands: "editableCommands s' = cmds'"
    by (simp add: s'_def render_def)
  have len: "length cmds' = length cmds"
    by (simp add: cmds'_def drag_main_length)
  have main: "cmd_x (cmds' ! i) = Num (ox + dx)" "cmd_y (cmds' ! i) = Num (oy + dy)"
    using drag_main_dragged(1,2) [OF i', of w] w by (simp_all add: cmds'_def)
  have cp2: "cmd_x2 (cmds' ! i) = Num (a + dx) \<and> cmd_y2 (cmds' ! i) = Num (b + dy)"
    if "cmd_x2 (cmds ! i) = Num a" "cmd_y2 (cmds ! i) = Num b" for a b
    using drag_main_dragged(3) [OF i', of w] that
    by (simp add: cmds'_def deltaX deltaY)
  have cp1: "cmd_x1 (cmds' ! Suc i) = Num (a + dx) \<and> cmd_y1 (cmds' ! Suc i) = Num (b + dy)"
    if "Suc i < length cmds" "cmd_x1 (cmds ! Suc i) = Num a" "cmd_y1 (cmds ! Suc i) = Num b"
    for a b
    using drag_main_next [of i cmds w] that
    by (simp add: cmds'_def deltaX deltaY)
  show ?thesis
    using result len main cp2 cp1 unfolding commands [symmetric] cmds_def by blast
qed

lemma part_000_main_drag_on_sample:
  "isDragging pressed_editor
   \<and> dragPoint pressed_editor = Some \<lparr> cmdIndex = 1, pointType = PtMain \<rparr>
   \<and> cmd_x (editableCommands pressed_editor ! 1) = Num 20
   \<and> cmd_y (editableCommands pressed_editor ! 1) = Num 10
   \<and> cmd_x2 (editableCommands pressed_editor ! 1) = Num 20
   \<and> cmd_y2 (editableCommands pressed_editor ! 1) = Num 5
   \<and> cmd_x1 (editableCommands pressed_editor ! 2) = Num 20
   \<and> cmd_y1 (editableCommands pressed_editor ! 2) = Num 15
   \<and> (\<exists>s'. onMouseMove pressed_editor (at_pos 94 46) = Inr s'
         \<and> cmd_x (editableCommands s' ! 1) = Num 21
         \<and> cmd_y (editableCommands s' ! 1) = Num 11
         \<and> cmd_x2 (editableCommands s' ! 1) = Num 21
         \<and> cmd_y2 (editableCommands s' ! 1) = Num 6
         \<and> cmd_x1 (editableCommands s' ! 2) = Num 21
         \<and> cmd_y1 (editableCommands s' ! 2) = Num 16)"
proof -
  have drag: "isDragging pressed_editor"
    "dragPoint pressed_editor = Some \<lparr> cmdIndex = 1, pointType = PtMain \<rparr>"
    by (simp_all add: pressed_fields)
  have i: "1 < length (editableCommands pressed_editor)"
    by (simp add: pressed_fields sample_commands)
  have old: "cmd_x (editableCommands pressed_editor ! 1) = Num 20"
    "cmd_y (editableCommands pressed_editor ! 1) = Num 10"
    by (simp_all add: pressed_fields sample_commands editable_of_def)
  have new: "inverseTransformPoint pressed_editor (fst (getMousePos (at_pos 94 46)))
     (snd (getMousePos (at_pos 94 46))) = (20 + 1, 10 + 1)"
    by (simp add: pressed_world_pos)
  have cps: "cmd_x2 (editableCommands pressed_editor ! 1) = Num 20"
    "cmd_y2 (editableCommands pressed_editor ! 1) = Num 5"
    "cmd_x1 (editableCommands pressed_editor ! Suc 1) = Num 20"
    "cmd_y1 (editableCommands pressed_editor ! Suc 1) = Num 15"
    "Suc 1 < length (editableCommands pressed_editor)"
    by (simp_all add: pressed_fields sample_commands editable_of_def)
  from part_000_main_drag_moves_control_points [OF drag i old new]
  obtain s' where s': "onMouseMove pressed_editor (at_pos 94 46) = Inr s'"
    "cmd_x (editableCommands s' ! 1) = Num (20 + 1)"
    "cmd_y (editableCommands s' ! 1) = Num (10 + 1)"
    "cmd_x2 (editableCommands s' ! 1) = Num (20 + 1) \<and> cmd_y2 (editableCommands s' ! 1) = Num (5 + 1)"
    "cmd_x1 (editableCommands s' ! Suc 1) = Num (20 + 1) \<and> cmd_y1 (editableCommands s' ! Suc 1) = Num (15 + 1)"
    using cps by blast
  have two: "Suc 1 = (2::nat)" by simp
  show ?thesis
    using drag old cps s' unfolding two by simp
qed

text \<open>
  The earlier copy, \<^verbatim>\<open>src/js/site.js\<close>, differs here: its branch for a main point
  writes the main point and leaves every control point where it was.
\<close>

lemma onMouseMove_js_site_main:
  assumes "isDragging s" "dragPoint s = Some \<lparr> cmdIndex = i, pointType = PtMain \<rparr>"
    and "i < length (editableCommands s)"
    and "inverseTransformPoint s (fst (getMousePos e)) (snd (getMousePos e)) = (wx, wy)"
  shows "onMouseMove_js_site s e =
           Inr (render (s \<lparr> editableCommands :=
             (editableCommands s) [i := (editableCommands s ! i) \<lparr> cmd_x := Num wx,
                                                                  cmd_y := Num wy \<rparr>] \<rparr>))"
  using assms by (simp add: onMouseMove_js_site_def Let_def)

lemma js_site_pressed_eq:
  "js_site_pressed =
     sample_editor \<lparr> dragPoint := Some \<lparr> cmdIndex = 1, pointType = PtMain \<rparr>,
                     isDragging := True, controlPointRadius := 8, cursor := ''grabbing'' \<rparr>"
proof -
  have same: "setup_editor sample_page (new_editor \<lparr> controlPointRadius := 8 \<rparr>)
      = sample_editor \<lparr> controlPointRadius := 8 \<rparr>"
    by (simp add: sample_editor_def setup_defs sample_page_def sample_glyph_def new_editor_def)
  show ?thesis
    unfolding js_site_pressed_def same
    by (simp add: onMouseDown_def sample_eval)
qed

text \<open>
  C1. A dragged main point should take the command's second control point and the next
  command's first control point along by the same delta. \<open>onMouseMove\<close> of
  \<^verbatim>\<open>src/js/site.js\<close> does not. On the sample page a press at (90, 50) starts a drag
  of the main point of command 1, at (20, 10) in font units; the mouse then moves to
  (94, 46), which is (21, 11) in font units, a delta of (1, 1). The copy of
  \<^verbatim>\<open>src/js/site.js\<close> moves the main point there and leaves the second control point
  at (20, 5) and the next command's first control point at (20, 15); the copy of
  \<^verbatim>\<open>src/unnamed/part_000\<close> moves them to (21, 6) and (21, 16). Every number here is
  an integer that the script's arithmetic computes without rounding.
\<close>

theorem js_site_main_drag_leaves_control_points:
  "isDragging js_site_pressed
   \<and> dragPoint js_site_pressed = Some \<lparr> cmdIndex = 1, pointType = PtMain \<rparr>
   \<and> cmd_x (editableCommands js_site_pressed ! 1) = Num 20
   \<and> cmd_y (editableCommands js_site_pressed ! 1) = Num 10
   \<and> cmd_x2 (editableCommands js_site_pressed ! 1) = Num 20
   \<and> cmd_y2 (editableCommands js_site_pressed ! 1) = Num 5
   \<and> cmd_x1 (editableCommands js_site_pressed ! 2) = Num 20
   \<and> cmd_y1 (editableCommands js_site_pressed ! 2) = Num 15
   \<and> (\<exists>s'. onMouseMove_js_site js_site_pressed (at_pos 94 46) = Inr s'
         \<and> cmd_x (editableCommands s' ! 1) = Num 21
         \<and> cmd_y (editableCommands s' ! 1) = Num 11
         \<and> cmd_x2 (editableCommands s' ! 1) = Num 20
         \<and> cmd_y2 (editableCommands s' ! 1) = Num 5
         \<and> cmd_x1 (editableCommands s' ! 2) = Num 20
         \<and> cmd_y1 (editableCommands s' ! 2) = Num 15)
   \<and> (\<exists>s'. onMouseMove pressed_editor (at_pos 94 46) = Inr s'
         \<and> cmd_x (editableCommands s' ! 1) = Num 21
         \<and> cmd_y (editableCommands s' ! 1) = Num 11
         \<and> cmd_x2 (editableCommands s' ! 1) = Num 21
         \<and> cmd_y2 (editableCommands s' ! 1) = Num 6
         \<and> cmd_x1 (editableCommands s' ! 2) = Num 21
         \<and> cmd_y1 (editableCommands s' ! 2) = Num 16)"
proof -
  have state: "isDragging js_site_pressed"
    "dragPoint js_site_pressed = Some \<lparr> cmdIndex = 1, pointType = PtMain \<rparr>"
    "editableCommands js_site_pressed = editableCommands sample_editor"
    by (simp_all add: js_site_pressed_eq)
  have len: "1 < length (editableCommands js_site_pressed)"
    by (simp add: state sample_commands)
  have world: "inverseTransformPoint js_site_pressed (fst (getMousePos (at_pos 94 46)))
     (snd (getMousePos (at_pos 94 46))) = (21, 11)"
    by (simp add: inverseTransformPoint_def js_site_pressed_eq sample_fields getMousePos_def
        at_pos_def)
  have before: "cmd_x (editableCommands js_site_pressed ! 1) = Num 20"
    "cmd_y (editableCommands js_site_pressed ! 1) = Num 10"
    "cmd_x2 (editableCommands js_site_pressed ! 1) = Num 20"
    "cmd_y2 (editableCommands js_site_pressed ! 1) = Num 5"
    "cmd_x1 (editableCommands js_site_pressed ! 2) = Num 20"
    "cmd_y1 (editableCommands js_site_pressed ! 2) = Num 15"
    by (simp_all add: state sample_commands editable_of_def)
  define s' where "s' = render (js_site_pressed \<lparr> editableCommands :=
      (editableCommands js_site_pressed)
        [1 := (editableCommands js_site_pressed ! 1) \<lparr> cmd_x := Num 21, cmd_y := Num 11 \<rparr>] \<rparr>)"
  have moved: "onMouseMove_js_site js_site_pressed (at_pos 94 46) = Inr s'"
    unfolding s'_def by (rule onMouseMove_js_site_main [OF state(1,2) len world])
  have after: "cmd_x (editableCommands s' ! 1) = Num 21"
    "cmd_y (editableCommands s' ! 1) = Num 11"
    "cmd_x2 (editableCommands s' ! 1) = Num 20"
    "cmd_y2 (editableCommands s' ! 1) = Num 5"
    "cmd_x1 (editableCommands s' ! 2) = Num 20"
    "cmd_y1 (editableCommands s' ! 2) = Num 15"
    by (simp_all add: s'_def render_def state sample_commands editable_of_def)
  show ?thesis
    using state(1,2) before moved after part_000_main_drag_on_sample by blast
qed

subsection \<open>Shadow copies under drags and reset\<close>

lemma shadow_update:
  "shadow (c \<lparr> cmd_x := v \<rparr>) = shadow c" "shadow (c \<lparr> cmd_y := v \<rparr>) = shadow c"
  "shadow (c \<lparr> cmd_x1 := v \<rparr>) = shadow c" "shadow (c \<lparr> cmd_y1 := v \<rparr>) = shadow c"
  "shadow (c \<lparr> cmd_x2 := v \<rparr>) = shadow c" "shadow (c \<lparr> cmd_y2 := v \<rparr>) = shadow c"
  by (simp_all add: shadow_def)

lemma map_shadow_update:
  "i < length cmds \<Longrightarrow> shadow c = shadow (cmds ! i) \<Longrightarrow>
     map shadow (cmds [i := c]) = map shadow cmds"
  by (simp add: map_update list_update_same_conv)

lemma shadow_drag_main_nth:
  assumes "j < length cmds"
  shows "shadow (drag_main cmds i w ! j) = shadow (cmds ! j)"
  using assms by (simp add: drag_main_def Let_def nth_list_update shadow_update)

lemma shadow_drag_main: "map shadow (drag_main cmds i w) = map shadow cmds"
  by (rule nth_equalityI) (simp_all add: drag_main_length shadow_drag_main_nth)

lemma shadow_onMouseMove:
  assumes "onMouseMove s e = Inr s'"
  shows "map shadow (editableCommands s') = map shadow (editableCommands s)"
proof (cases "isDragging s \<and> dragPoint s \<noteq> None")
  case False
  with assms show ?thesis
    by (auto simp: onMouseMove_def Let_def split: if_splits)
next
  case dragging: True
  then obtain dp where dp: "dragPoint s = Some dp"
    by auto
  show ?thesis
  proof (cases "length (editableCommands s) \<le> cmdIndex dp")
    case True
    with assms dp dragging show ?thesis
      by (simp add: onMouseMove_def Let_def)
  next
    case False
    with assms dp dragging show ?thesis
      by (cases "pointType dp")
         (auto simp: onMouseMove_def Let_def render_def shadow_drag_main map_shadow_update
            shadow_update)
  qed
qed

lemma shadow_onMouseMove_js_site:
  assumes "onMouseMove_js_site s e = Inr s'"
  shows "map shadow (editableCommands s') = map shadow (editableCommands s)"
proof (cases "isDragging s \<and> dragPoint s \<noteq> None")
  case False
  with assms show ?thesis
    by (auto simp: onMouseMove_js_site_def Let_def split: if_splits)
next
  case dragging: True
  then obtain dp where dp: "dragPoint s = Some dp"
    by auto
  show ?thesis
  proof (cases "length (editableCommands s) \<le> cmdIndex dp")
    case True
    with assms dp dragging show ?thesis
      by (simp add: onMouseMove_js_site_def Let_def)
  next
    case False
    with assms dp dragging show ?thesis
      by (cases "pointType dp")
         (auto simp: onMouseMove_js_site_def Let_def render_def map_shadow_update shadow_update)
  qed
qed

lemma shadow_onMouseDown:
  "map shadow (editableCommands (onMouseDown s e)) = map shadow (editableCommands s)"
  by (simp add: onMouseDown_def Let_def)

lemma shadow_dispatch:
  "map shadow (editableCommands (dispatch s ev)) = map shadow (editableCommands s)"
  by (cases ev) (auto simp: shadow_onMouseDown onMouseUp_def shadow_onMouseMove split: sum.splits)

lemma shadow_run: "map shadow (editableCommands (run s evs)) = map shadow (editableCommands s)"
  by (induction evs arbitrary: s) (simp_all add: shadow_dispatch)

lemma reset_cmd_matches: "matches_shadow (reset_cmd c)"
  by (simp add: matches_shadow_def reset_cmd_def Let_def)

lemma reset_commands_matches: "c \<in> set (reset_commands cmds) \<Longrightarrow> matches_shadow c"
  by (induction cmds) (auto simp: reset_cmd_matches)

lemma reset_commands_length: "length (reset_commands cmds) = length cmds"
  by (induction cmds) simp_all

lemma shadow_reset_cmd: "shadow (reset_cmd c) = shadow c"
  by (simp add: shadow_def reset_cmd_def Let_def)

lemma shadow_reset_commands: "map shadow (reset_commands cmds) = map shadow cmds"
  by (induction cmds) (simp_all add: shadow_reset_cmd)

text \<open>The sample drag, step by step.\<close>

lemma sample_drag_moved:
  "onMouseMove pressed_editor (at_pos 94 46) =
     Inr (render (pressed_editor \<lparr> editableCommands :=
       drag_main (editableCommands sample_editor) 1 (21, 11) \<rparr>))"
  using onMouseMove_main [of pressed_editor 1 "at_pos 94 46"]
  by (simp add: pressed_fields sample_commands pressed_world_pos)

lemma sample_drag_commands:
  "drag_main (editableCommands sample_editor) (Suc 0) (21, 11) =
     [editable_of (MoveTo 0 0),
      (editable_of (CurveTo 10 0 20 5 20 10))
        \<lparr> cmd_x := Num 21, cmd_y := Num 11, cmd_x2 := Num 21, cmd_y2 := Num 6 \<rparr>,
      (editable_of (CurveTo 20 15 10 20 0 20)) \<lparr> cmd_x1 := Num 21, cmd_y1 := Num 16 \<rparr>,
      editable_of ClosePath]"
  by (simp add: drag_main_def sample_commands editable_of_def Let_def )

lemma sample_drag_run:
  "editableCommands (run sample_editor sample_drag) =
     drag_main (editableCommands sample_editor) 1 (21, 11)"
  using sample_drag_moved
  by (simp add: sample_drag_def pressed_editor_def [symmetric] onMouseUp_def render_def)

text \<open>
  C7. The handlers of the mouse events never write an original-position field: after
  any sequence of events the six shadow fields of every command are what they were
  before it, so what \<open>parseGlyphPath\<close> assigned. The same holds of a single call of
  \<open>onMouseMove\<close>, in either copy of the script.
\<close>

theorem drags_keep_shadow_fields:
  "map shadow (editableCommands (run s evs)) = map shadow (editableCommands s)
   \<and> (\<forall>s'. onMouseMove s e = Inr s' \<longrightarrow>
         map shadow (editableCommands s') = map shadow (editableCommands s))
   \<and> (\<forall>s'. onMouseMove_js_site s e = Inr s' \<longrightarrow>
         map shadow (editableCommands s') = map shadow (editableCommands s))"
  by (simp add: shadow_run shadow_onMouseMove shadow_onMouseMove_js_site)

theorem drags_keep_shadow_fields_witness:
  "onMouseMove pressed_editor (at_pos 94 46) =
     Inr (render (pressed_editor \<lparr> editableCommands :=
       drag_main (editableCommands sample_editor) 1 (21, 11) \<rparr>))
   \<and> cmd_x (drag_main (editableCommands sample_editor) 1 (21, 11) ! 1) = Num 21
   \<and> cmd_x (editableCommands pressed_editor ! 1) = Num 20
   \<and> map shadow (drag_main (editableCommands sample_editor) 1 (21, 11))
       = map shadow (parse_commands (glyph_path sample_glyph))
   \<and> map shadow (editableCommands (run sample_editor sample_drag))
       = map shadow (parse_commands (glyph_path sample_glyph))"
proof -
  have parsed: "parse_commands (glyph_path sample_glyph) = editableCommands sample_editor"
    by (simp add: sample_commands sample_glyph_def)
  have "map shadow (editableCommands (render (pressed_editor \<lparr> editableCommands :=
       drag_main (editableCommands sample_editor) 1 (21, 11) \<rparr>)))
       = map shadow (editableCommands pressed_editor)"
    using drags_keep_shadow_fields [of pressed_editor "[]" "at_pos 94 46"] sample_drag_moved
    by blast
  moreover have "map shadow (editableCommands (run sample_editor sample_drag))
       = map shadow (editableCommands sample_editor)"
    using drags_keep_shadow_fields [of sample_editor sample_drag "at_pos 94 46"]
    by blast
  ultimately show ?thesis
    using sample_drag_moved
    by (simp add: parsed render_def pressed_fields sample_drag_commands)
       (simp add: sample_commands editable_of_def)
qed

text \<open>
  C3. After \<open>resetGlyph\<close> every command's main point equals its original, and each
  control point whose original is present equals that original, whatever events came
  before; the originals are still those of the state the events started from.
\<close>

theorem resetGlyph_restores_originals:
  "(\<forall>c \<in> set (editableCommands (resetGlyph (run s evs))). matches_shadow c)
   \<and> map shadow (editableCommands (resetGlyph (run s evs))) = map shadow (editableCommands s)"
  by (simp add: resetGlyph_def render_def reset_commands_matches shadow_reset_commands shadow_run)

theorem resetGlyph_restores_originals_witness:
  "cmd_x (editableCommands (run sample_editor sample_drag) ! 1) = Num 21
   \<and> cmd_originalX (editableCommands (run sample_editor sample_drag) ! 1) = Num 20
   \<and> editableCommands (resetGlyph (run sample_editor sample_drag)) ! 1
       \<in> set (editableCommands (resetGlyph (run sample_editor sample_drag)))
   \<and> matches_shadow (editableCommands (resetGlyph (run sample_editor sample_drag)) ! 1)
   \<and> cmd_x (editableCommands (resetGlyph (run sample_editor sample_drag)) ! 1) = Num 20
   \<and> cmd_x2 (editableCommands (resetGlyph (run sample_editor sample_drag)) ! 1) = Num 20"
proof -
  have len: "1 < length (editableCommands (resetGlyph (run sample_editor sample_drag)))"
    by (simp add: resetGlyph_def render_def reset_commands_length sample_drag_run
        drag_main_length sample_commands)
  then have mem: "editableCommands (resetGlyph (run sample_editor sample_drag)) ! 1
       \<in> set (editableCommands (resetGlyph (run sample_editor sample_drag)))"
    by (rule nth_mem)
  with resetGlyph_restores_originals [of sample_editor sample_drag]
  have "matches_shadow (editableCommands (resetGlyph (run sample_editor sample_drag)) ! 1)"
    by blast
  with mem show ?thesis
    by (simp add: resetGlyph_def render_def sample_drag_run sample_drag_commands reset_cmd_def
        editable_of_def Let_def)
qed

subsection \<open>Dragging a control point\<close>

text \<open>
  C8. While a drag of a control point is in progress, \<open>onMouseMove\<close> writes the mouse's
  position in font units into that control point of the dragged command and changes
  nothing else in the list of commands: the dragged command keeps every other field,
  and every other command is as it was. Both copies of the script do the same.
\<close>

theorem control_point_drag_changes_one_pair:
  assumes drag: "isDragging s" "dragPoint s = Some \<lparr> cmdIndex = i, pointType = pt \<rparr>"
    and pt: "pt = PtCp1 \<or> pt = PtCp2"
    and i: "i < length (editableCommands s)"
    and new: "inverseTransformPoint s (fst (getMousePos e)) (snd (getMousePos e)) = (wx, wy)"
  shows "\<exists>s'. onMouseMove s e = Inr s' \<and> onMouseMove_js_site s e = Inr s'
      \<and> length (editableCommands s') = length (editableCommands s)
      \<and> (\<forall>j < length (editableCommands s). j \<noteq> i \<longrightarrow>
            editableCommands s' ! j = editableCommands s ! j)
      \<and> editableCommands s' ! i =
          (if pt = PtCp1
           then (editableCommands s ! i) \<lparr> cmd_x1 := Num wx, cmd_y1 := Num wy \<rparr>
           else (editableCommands s ! i) \<lparr> cmd_x2 := Num wx, cmd_y2 := Num wy \<rparr>)"
proof -
  define cmd' where "cmd' =
    (if pt = PtCp1
     then (editableCommands s ! i) \<lparr> cmd_x1 := Num wx, cmd_y1 := Num wy \<rparr>
     else (editableCommands s ! i) \<lparr> cmd_x2 := Num wx, cmd_y2 := Num wy \<rparr>)"
  define s' where "s' = render (s \<lparr> editableCommands := (editableCommands s) [i := cmd'] \<rparr>)"
  have commands: "editableCommands s' = (editableCommands s) [i := cmd']"
    by (simp add: s'_def render_def)
  have "onMouseMove s e = Inr s'" and "onMouseMove_js_site s e = Inr s'"
    using drag pt i new
    by (auto simp: onMouseMove_def onMouseMove_js_site_def Let_def s'_def cmd'_def)
  moreover have "length (editableCommands s') = length (editableCommands s)"
    by (simp add: commands)
  moreover have "editableCommands s' ! j = editableCommands s ! j" if "j \<noteq> i" for j
    using that by (simp add: commands)
  moreover have "editableCommands s' ! i = cmd'"
    using i by (simp add: commands)
  ultimately show ?thesis
    unfolding cmd'_def by blast
qed

theorem control_point_drag_changes_one_pair_witness:
  "isDragging (pressed_editor \<lparr> dragPoint := Some \<lparr> cmdIndex = 1, pointType = PtCp2 \<rparr> \<rparr>)
   \<and> inverseTransformPoint
        (pressed_editor \<lparr> dragPoint := Some \<lparr> cmdIndex = 1, pointType = PtCp2 \<rparr> \<rparr>)
        (fst (getMousePos (at_pos 94 46))) (snd (getMousePos (at_pos 94 46))) = (21, 11)
   \<and> (\<exists>s'. onMouseMove (pressed_editor \<lparr> dragPoint := Some \<lparr> cmdIndex = 1, pointType = PtCp2 \<rparr> \<rparr>)
               (at_pos 94 46) = Inr s'
         \<and> editableCommands s' ! 0 = editable_of (MoveTo 0 0)
         \<and> editableCommands s' ! 1 =
             (editable_of (CurveTo 10 0 20 5 20 10)) \<lparr> cmd_x2 := Num 21, cmd_y2 := Num 11 \<rparr>
         \<and> cmd_x (editableCommands s' ! 1) = Num 20
         \<and> cmd_x1 (editableCommands s' ! 1) = Num 10)"
proof -
  let ?s = "pressed_editor \<lparr> dragPoint := Some \<lparr> cmdIndex = 1, pointType = PtCp2 \<rparr> \<rparr>"
  have drag: "isDragging ?s" "dragPoint ?s = Some \<lparr> cmdIndex = 1, pointType = PtCp2 \<rparr>"
    by (simp_all add: pressed_fields)
  have pt: "PtCp2 = PtCp1 \<or> PtCp2 = PtCp2"
    by simp
  have i: "1 < length (editableCommands ?s)"
    by (simp add: pressed_fields sample_commands)
  have new: "inverseTransformPoint ?s (fst (getMousePos (at_pos 94 46)))
     (snd (getMousePos (at_pos 94 46))) = (21, 11)"
    by (simp add: inverseTransformPoint_def pressed_fields getMousePos_def at_pos_def)
  from control_point_drag_changes_one_pair [OF drag pt i new]
  obtain s' where s': "onMouseMove ?s (at_pos 94 46) = Inr s'"
    "\<forall>j < length (editableCommands ?s). j \<noteq> 1 \<longrightarrow> editableCommands s' ! j = editableCommands ?s ! j"
    "editableCommands s' ! 1 = (editableCommands ?s ! 1) \<lparr> cmd_x2 := Num 21, cmd_y2 := Num 11 \<rparr>"
    by auto
  have pos: "0 < length (editableCommands ?s)"
    by (simp add: pressed_fields sample_commands)
  have zero: "editableCommands s' ! 0 = editableCommands ?s ! 0"
    using s'(2) [rule_format, OF pos] by simp
  have first: "editableCommands ?s ! 0 = editable_of (MoveTo 0 0)"
    and second: "editableCommands ?s ! 1 = editable_of (CurveTo 10 0 20 5 20 10)"
    by (simp_all add: pressed_fields sample_commands)
  have fields: "cmd_x (editable_of (CurveTo 10 0 20 5 20 10)) = Num 20"
    "cmd_x1 (editable_of (CurveTo 10 0 20 5 20 10)) = Num 10"
    by (simp_all add: editable_of_def)
  show ?thesis
    using drag(1) new s'(1) s'(3) zero fields unfolding first second by auto
qed

subsection \<open>Fields after parseGlyphPath\<close>

lemma editable_of_fields_as_parsed: "fields_as_parsed (editable_of cmd)"
  by (cases cmd)
     (simp_all add: fields_as_parsed_def coordinate_fields_def editable_of_def Let_def)

lemma parse_commands_fields_as_parsed:
  "c \<in> set (parse_commands commands) \<Longrightarrow> fields_as_parsed c"
  by (induction commands) (auto simp: editable_of_fields_as_parsed)

text \<open>
  What holds after \<open>parseGlyphPath\<close>: a command tagged \<^verbatim>\<open>M\<close> or \<^verbatim>\<open>L\<close> holds a
  main point and no control point, one tagged \<^verbatim>\<open>Q\<close> a main point and the first
  control point, one tagged \<^verbatim>\<open>C\<close> a main point and both control points, and one
  tagged \<^verbatim>\<open>Z\<close> a main point at (0, 0) and no control point.
\<close>

lemma parseGlyphPath_fields_as_parsed:
  assumes "originalPath s = Some commands"
  shows "\<exists>s'. parseGlyphPath s = Inr s'
           \<and> length (editableCommands s') = length commands
           \<and> (\<forall>c \<in> set (editableCommands s'). fields_as_parsed c)"
proof -
  have "parseGlyphPath s = Inr (s \<lparr> editableCommands := parse_commands commands \<rparr>)"
    using assms by (simp add: parseGlyphPath_def)
  moreover have "length (parse_commands commands) = length commands"
    by (induction commands) simp_all
  ultimately show ?thesis
    by (simp add: parse_commands_fields_as_parsed)
qed

text \<open>
  C5. After \<open>parseGlyphPath\<close> every command should hold exactly the coordinate fields
  of its type tag, a \<^verbatim>\<open>Z\<close> command none. The script gives every command
  \<^verbatim>\<open>x: cmd.x || 0\<close> and \<^verbatim>\<open>y: cmd.y || 0\<close>, so on the path \<^verbatim>\<open>M 3 4 Z\<close> the
  command of \<^verbatim>\<open>Z\<close> holds a main point at (0, 0), and with the constructor's transform
  a press at (0, 0) of the canvas picks that point up.
\<close>

theorem closed_path_command_holds_main_point:
  "parseGlyphPath (new_editor \<lparr> originalPath := Some [MoveTo 3 4, ClosePath] \<rparr>)
     = Inr (new_editor \<lparr> originalPath := Some [MoveTo 3 4, ClosePath],
                         editableCommands := [editable_of (MoveTo 3 4), editable_of ClosePath] \<rparr>)
   \<and> cmd_type (editable_of ClosePath) = ''Z''
   \<and> cmd_x (editable_of ClosePath) = Num 0
   \<and> cmd_y (editable_of ClosePath) = Num 0
   \<and> coordinate_fields (editable_of ClosePath) = [True, True, False, False, False, False]
   \<and> \<not> fields_mirror_type (editable_of ClosePath)
   \<and> findControlPoint
         (new_editor \<lparr> originalPath := Some [MoveTo 3 4, ClosePath],
                        editableCommands := [editable_of (MoveTo 3 4), editable_of ClosePath] \<rparr>)
         0 0
       = Some \<lparr> cmdIndex = 1, pointType = PtMain \<rparr>"
  by (simp add: parseGlyphPath_def new_editor_def editable_of_def Let_def
      fields_mirror_type_def coordinate_fields_def findControlPoint_def point_hit_eval)

subsection \<open>A font that fails to load\<close>

lemma setup_editor_load_failure:
  assumes "page_canvas pg = Some r" "page_font pg = Inl err"
  shows "setup_editor pg s =
     s \<lparr> canvasRect := Some r, offsetX := rect_width r / 2, offsetY := rect_height r / 2,
         fontLoads := Suc (fontLoads s), consoleErrors := Suc (consoleErrors s),
         canvasText := canvasText s @ [''Font failed to load'', ''Check console for details''] \<rparr>"
  using assms by (simp add: setup_editor_def setup_catch_def renderFallback_def Let_def)

text \<open>
  C6. When the page has the canvas and \<^verbatim>\<open>opentype.load\<close> throws, \<^verbatim>\<open>setup\<close> on
  the freshly constructed editor draws the two lines of the fallback message, the first
  being \<^verbatim>\<open>Font failed to load\<close>, and does nothing else for the failure: the font was
  requested once, no listener and no control is installed, nothing was rendered, no
  glyph is set and \<open>editableCommands\<close> is still empty.
\<close>

theorem font_load_failure_renders_fallback_only:
  assumes "page_canvas pg = Some r" "page_font pg = Inl err"
  shows "canvasText (setup_editor pg new_editor)
           = [''Font failed to load'', ''Check console for details'']
       \<and> fontLoads (setup_editor pg new_editor) = 1
       \<and> consoleErrors (setup_editor pg new_editor) = 1
       \<and> listeners (setup_editor pg new_editor) = []
       \<and> \<not> controlsInstalled (setup_editor pg new_editor)
       \<and> renders (setup_editor pg new_editor) = 0
       \<and> glyph (setup_editor pg new_editor) = None
       \<and> editableCommands (setup_editor pg new_editor) = []"
  unfolding setup_editor_load_failure [OF assms] by (simp add: new_editor_def)

theorem font_load_failure_renders_fallback_only_witness:
  "page_canvas \<lparr> page_canvas = Some \<lparr> rect_width = 100, rect_height = 100 \<rparr>,
                 page_font = Inl TypeError \<rparr> = Some \<lparr> rect_width = 100, rect_height = 100 \<rparr>
   \<and> page_font \<lparr> page_canvas = Some \<lparr> rect_width = 100, rect_height = 100 \<rparr>,
                 page_font = Inl TypeError \<rparr> = Inl TypeError
   \<and> canvasText (setup_editor \<lparr> page_canvas = Some \<lparr> rect_width = 100, rect_height = 100 \<rparr>,
                                page_font = Inl TypeError \<rparr> new_editor)
       = [''Font failed to load'', ''Check console for details'']
   \<and> listeners (setup_editor \<lparr> page_canvas = Some \<lparr> rect_width = 100, rect_height = 100 \<rparr>,
                                page_font = Inl TypeError \<rparr> new_editor) = []
   \<and> editableCommands (setup_editor \<lparr> page_canvas = Some \<lparr> rect_width = 100, rect_height = 100 \<rparr>,
                                page_font = Inl TypeError \<rparr> new_editor) = []
   \<and> listeners sample_editor = [''mousedown'', ''mousemove'', ''mouseup'', ''mouseleave'']
   \<and> canvasText sample_editor = []"
proof -
  let ?pg = "\<lparr> page_canvas = Some \<lparr> rect_width = 100, rect_height = 100 \<rparr>,
                page_font = Inl TypeError \<rparr>"
  have canvas: "page_canvas ?pg = Some \<lparr> rect_width = 100, rect_height = 100 \<rparr>"
    and font: "page_font ?pg = Inl TypeError"
    by simp_all
  have loaded: "listeners sample_editor = [''mousedown'', ''mousemove'', ''mouseup'', ''mouseleave'']"
    "canvasText sample_editor = []"
    by (simp_all add: sample_editor_def setup_defs sample_page_def sample_glyph_def new_editor_def)
  show ?thesis
    using font_load_failure_renders_fallback_only [OF canvas font] canvas font loaded
    by simp
qed

subsection \<open>calculateOptimalScale in exact arithmetic\<close>

lemma calculateOptimalScale_result:
  assumes "glyph s = Some g" "canvasRect s = Some r"
  shows "calculateOptimalScale s =
     Inr (s \<lparr> scale := min (rect_width r * 0.8 / (bb_x2 (glyph_bbox g) - bb_x1 (glyph_bbox g)))
                          (rect_height r * 0.8 / (bb_y2 (glyph_bbox g) - bb_y1 (glyph_bbox g))),
              offsetX := rect_width r / 2 - (bb_x1 (glyph_bbox g) + bb_x2 (glyph_bbox g)) / 2 *
                 min (rect_width r * 0.8 / (bb_x2 (glyph_bbox g) - bb_x1 (glyph_bbox g)))
                     (rect_height r * 0.8 / (bb_y2 (glyph_bbox g) - bb_y1 (glyph_bbox g))),
              offsetY := rect_height r / 2 + (bb_y1 (glyph_bbox g) + bb_y2 (glyph_bbox g)) / 2 *
                 min (rect_width r * 0.8 / (bb_x2 (glyph_bbox g) - bb_x1 (glyph_bbox g)))
                     (rect_height r * 0.8 / (bb_y2 (glyph_bbox g) - bb_y1 (glyph_bbox g))) \<rparr>)"
  using assms by (simp add: calculateOptimalScale_def Let_def)

text \<open>The scale chosen is positive, and the scaled box takes at most 80% of each side.\<close>

lemma optimal_scale_bounds:
  fixes w h gw gh :: real
  assumes "0 < w" "0 < h" "0 < gw" "0 < gh"
  defines "k \<equiv> min (w * 0.8 / gw) (h * 0.8 / gh)"
  shows "0 < k" and "k * gw \<le> 0.8 * w" and "k * gh \<le> 0.8 * h"
proof -
  show "0 < k"
    using assms by (simp add: k_def)
  have "k \<le> w * 0.8 / gw"
    by (simp add: k_def)
  then have "k * gw \<le> w * 0.8 / gw * gw"
    using \<open>0 < gw\<close> by (intro mult_right_mono) simp_all
  then show "k * gw \<le> 0.8 * w"
    using \<open>0 < gw\<close> by simp
  have "k \<le> h * 0.8 / gh"
    by (simp add: k_def)
  then have "k * gh \<le> h * 0.8 / gh * gh"
    using \<open>0 < gh\<close> by (intro mult_right_mono) simp_all
  then show "k * gh \<le> 0.8 * h"
    using \<open>0 < gh\<close> by simp
qed

text \<open>
  In exact arithmetic, for a glyph whose bounding box has positive width and height, on
  a canvas of positive width and height, \<open>calculateOptimalScale\<close> sets scale and
  offsets so that \<open>transformPoint\<close> maps each corner of the box strictly inside the
  canvas, between 10% and 90% of its width and of its height, and the centre of the
  box to the centre of the canvas.
\<close>

lemma calculateOptimalScale_fits_box_exact:
  assumes g: "glyph s = Some g" and r: "canvasRect s = Some r"
    and box: "bb_x1 (glyph_bbox g) < bb_x2 (glyph_bbox g)"
             "bb_y1 (glyph_bbox g) < bb_y2 (glyph_bbox g)"
    and canvas: "0 < rect_width r" "0 < rect_height r"
    and corner: "cx = bb_x1 (glyph_bbox g) \<or> cx = bb_x2 (glyph_bbox g)"
                "cy = bb_y1 (glyph_bbox g) \<or> cy = bb_y2 (glyph_bbox g)"
  shows "\<exists>s'. calculateOptimalScale s = Inr s'
      \<and> 0 < fst (transformPoint s' cx cy) \<and> fst (transformPoint s' cx cy) < rect_width r
      \<and> 0 < snd (transformPoint s' cx cy) \<and> snd (transformPoint s' cx cy) < rect_height r
      \<and> 0.1 * rect_width r \<le> fst (transformPoint s' cx cy)
      \<and> fst (transformPoint s' cx cy) \<le> 0.9 * rect_width r
      \<and> 0.1 * rect_height r \<le> snd (transformPoint s' cx cy)
      \<and> snd (transformPoint s' cx cy) \<le> 0.9 * rect_height r
      \<and> transformPoint s' ((bb_x1 (glyph_bbox g) + bb_x2 (glyph_bbox g)) / 2)
                           ((bb_y1 (glyph_bbox g) + bb_y2 (glyph_bbox g)) / 2)
          = (rect_width r / 2, rect_height r / 2)"
proof -
  define x1 y1 x2 y2 where "x1 = bb_x1 (glyph_bbox g)" and "y1 = bb_y1 (glyph_bbox g)"
    and "x2 = bb_x2 (glyph_bbox g)" and "y2 = bb_y2 (glyph_bbox g)"
  define w h where "w = rect_width r" and "h = rect_height r"
  define k where "k = min (w * 0.8 / (x2 - x1)) (h * 0.8 / (y2 - y1))"
  define s' where "s' = s \<lparr> scale := k, offsetX := w / 2 - (x1 + x2) / 2 * k,
                              offsetY := h / 2 + (y1 + y2) / 2 * k \<rparr>"
  have result: "calculateOptimalScale s = Inr s'"
    using calculateOptimalScale_result [OF g r]
    by (simp add: s'_def k_def x1_def y1_def x2_def y2_def w_def h_def)
  have pos: "0 < w" "0 < h" "0 < x2 - x1" "0 < y2 - y1"
    using box canvas by (simp_all add: x1_def y1_def x2_def y2_def w_def h_def)
  have k: "0 < k" "k * (x2 - x1) \<le> 0.8 * w" "k * (y2 - y1) \<le> 0.8 * h"
    using optimal_scale_bounds [OF pos] by (simp_all add: k_def)
  define a b where "a = k * (x2 - x1)" and "b = k * (y2 - y1)"
  define t u where "t = (cx - (x1 + x2) / 2) * k" and "u = (cy - (y1 + y2) / 2) * k"
  have a: "0 < a" "a \<le> 0.8 * w" and b: "0 < b" "b \<le> 0.8 * h"
    using k pos by (simp_all add: a_def b_def)
  have fst_eq: "fst (transformPoint s' cx cy) = w / 2 + t"
    and snd_eq: "snd (transformPoint s' cx cy) = h / 2 - u"
    by (simp_all add: transformPoint_def s'_def t_def u_def algebra_simps)
  have t: "t = - a / 2 \<or> t = a / 2"
    using corner(1) by (auto simp: t_def a_def x1_def x2_def algebra_simps)
  have u: "u = - b / 2 \<or> u = b / 2"
    using corner(2) by (auto simp: u_def b_def y1_def y2_def algebra_simps)
  have horizontal: "0.1 * w \<le> fst (transformPoint s' cx cy)"
    "fst (transformPoint s' cx cy) \<le> 0.9 * w"
    unfolding fst_eq using t a by linarith+
  have vertical: "0.1 * h \<le> snd (transformPoint s' cx cy)"
    "snd (transformPoint s' cx cy) \<le> 0.9 * h"
    unfolding snd_eq using u b by linarith+
  have inside: "0 < fst (transformPoint s' cx cy)" "fst (transformPoint s' cx cy) < w"
    "0 < snd (transformPoint s' cx cy)" "snd (transformPoint s' cx cy) < h"
    using horizontal vertical pos(1,2) by simp_all
  have centre: "transformPoint s' ((x1 + x2) / 2) ((y1 + y2) / 2) = (w / 2, h / 2)"
    by (simp add: transformPoint_def s'_def)
  show ?thesis
    using result inside horizontal vertical centre
    unfolding x1_def y1_def x2_def y2_def w_def h_def by blast
qed

lemma calculateOptimalScale_fits_box_exact_sample:
  "glyph sample_editor = Some sample_glyph
   \<and> canvasRect sample_editor = Some \<lparr> rect_width = 100, rect_height = 100 \<rparr>
   \<and> (\<exists>s'. calculateOptimalScale sample_editor = Inr s'
         \<and> scale s' = 4 \<and> offsetX s' = 10 \<and> offsetY s' = 90
         \<and> transformPoint s' 0 20 = (10, 10)
         \<and> 0 < fst (transformPoint s' 0 20) \<and> fst (transformPoint s' 0 20) < 100
         \<and> 0 < snd (transformPoint s' 0 20) \<and> snd (transformPoint s' 0 20) < 100
         \<and> transformPoint s' 10 10 = (50, 50))"
proof -
  have g: "glyph sample_editor = Some sample_glyph"
    and r: "canvasRect sample_editor = Some \<lparr> rect_width = 100, rect_height = 100 \<rparr>"
    by (simp_all add: sample_editor_def setup_defs sample_page_def sample_glyph_def new_editor_def)
  have box: "bb_x1 (glyph_bbox sample_glyph) < bb_x2 (glyph_bbox sample_glyph)"
    "bb_y1 (glyph_bbox sample_glyph) < bb_y2 (glyph_bbox sample_glyph)"
    by (simp_all add: sample_glyph_def)
  have canvas: "0 < rect_width \<lparr> rect_width = 100, rect_height = 100 \<rparr>"
    "0 < rect_height \<lparr> rect_width = 100, rect_height = 100 \<rparr>"
    by simp_all
  have corner: "0 = bb_x1 (glyph_bbox sample_glyph) \<or> 0 = bb_x2 (glyph_bbox sample_glyph)"
    "20 = bb_y1 (glyph_bbox sample_glyph) \<or> 20 = bb_y2 (glyph_bbox sample_glyph)"
    by (simp_all add: sample_glyph_def)
  from calculateOptimalScale_fits_box_exact [OF g r box canvas corner]
  obtain s' where s': "calculateOptimalScale sample_editor = Inr s'"
    "0 < fst (transformPoint s' 0 20)" "fst (transformPoint s' 0 20) < 100"
    "0 < snd (transformPoint s' 0 20)" "snd (transformPoint s' 0 20) < 100"
    "transformPoint s' ((bb_x1 (glyph_bbox sample_glyph) + bb_x2 (glyph_bbox sample_glyph)) / 2)
       ((bb_y1 (glyph_bbox sample_glyph) + bb_y2 (glyph_bbox sample_glyph)) / 2) = (100 / 2, 100 / 2)"
    by auto
  have vals: "scale s' = 4" "offsetX s' = 10" "offsetY s' = 90"
    using s'(1) calculateOptimalScale_result [OF g r]
    by (auto simp: sample_glyph_def sample_fields)
  have "transformPoint s' 0 20 = (10, 10)" "transformPoint s' 10 10 = (50, 50)"
    by (simp_all add: transformPoint_def vals)
  with g r s' vals show ?thesis
    by auto
qed

subsection \<open>Hit testing\<close>



lemma point_rank_less:
  "\<not> point_rank pt < point_rank PtMain"
  "point_rank pt < point_rank PtCp1 \<longleftrightarrow> pt = PtMain"
  "point_rank pt < point_rank PtCp2 \<longleftrightarrow> pt = PtMain \<or> pt = PtCp1"
  by (cases pt; simp)+







subsection \<open>The drag state\<close>

lemma onMouseMove_drag_state:
  assumes "onMouseMove s e = Inr s'"
  shows "isDragging s' = isDragging s \<and> dragPoint s' = dragPoint s"
  using assms
  by (auto simp: onMouseMove_def Let_def render_def
      split: if_splits option.splits point_type.splits)

lemma drag_inv_onMouseMove:
  assumes "onMouseMove s e = Inr s'"
  shows "drag_inv s' \<longleftrightarrow> drag_inv s"
  using onMouseMove_drag_state [OF assms] by (simp add: drag_inv_def)

lemma drag_inv_onMouseUp: "drag_inv (onMouseUp s)"
  by (simp add: drag_inv_def onMouseUp_def)

lemma drag_inv_onMouseDown:
  "drag_inv (onMouseDown s e) \<longleftrightarrow>
     (if showControlPoints s then \<not> press_misses_during_drag s e else drag_inv s)"
  by (auto simp: drag_inv_def onMouseDown_def press_misses_during_drag_def Let_def)

lemma drag_inv_dispatch:
  "drag_inv (dispatch s ev) \<longleftrightarrow>
     (case ev of
        MouseDown e \<Rightarrow> (if showControlPoints s then \<not> press_misses_during_drag s e else drag_inv s)
      | MouseMove e \<Rightarrow> drag_inv s
      | MouseUp e \<Rightarrow> True
      | MouseLeave e \<Rightarrow> True)"
proof (cases ev)
  case (MouseDown e)
  then show ?thesis by (simp add: drag_inv_onMouseDown)
next
  case (MouseMove e)
  then show ?thesis
    by (cases "onMouseMove s e") (simp_all add: drag_inv_onMouseMove)
next
  case (MouseUp e)
  then show ?thesis by (simp add: drag_inv_onMouseUp)
next
  case (MouseLeave e)
  then show ?thesis by (simp add: drag_inv_onMouseUp)
qed

lemma run_snoc: "run s (evs @ [ev]) = dispatch (run s evs) ev"
  by (induction evs arbitrary: s) simp_all

lemma drag_inv_run:
  assumes "drag_inv s" "no_missed_press_during_drag s evs"
  shows "drag_inv (run s evs)"
  using assms
proof (induction evs arbitrary: s)
  case Nil
  then show ?case by simp
next
  case (Cons ev evs)
  have "drag_inv (dispatch s ev) \<and> no_missed_press_during_drag (dispatch s ev) evs"
    using Cons.prems drag_inv_dispatch [of s ev] by (cases ev) simp_all
  then show ?case
    using Cons.IH by simp
qed

text \<open>
  C9, as stated, fails for \<open>onMouseDown\<close>: it overwrites \<open>dragPoint\<close> with the result
  of the hit test and sets \<open>isDragging\<close> only on a hit, so a press that hits no point
  while a drag is in progress leaves \<open>isDragging\<close> set and \<open>dragPoint\<close> \<^verbatim>\<open>null\<close>. On
  the sample page: a press on a point at (90, 50), then a press at (50, 50), where no
  point is.
\<close>

theorem second_press_breaks_drag_invariant:
  "drag_inv sample_editor
   \<and> drag_inv (run sample_editor [MouseDown (at_pos 90 50)])
   \<and> isDragging (run sample_editor [MouseDown (at_pos 90 50), MouseDown (at_pos 50 50)])
   \<and> dragPoint (run sample_editor [MouseDown (at_pos 90 50), MouseDown (at_pos 50 50)]) = None
   \<and> \<not> drag_inv (run sample_editor [MouseDown (at_pos 90 50), MouseDown (at_pos 50 50)])"
proof -
  have second: "onMouseDown pressed_editor (at_pos 50 50) = pressed_editor \<lparr> dragPoint := None \<rparr>"
    by (simp add: onMouseDown_def pressed_editor_eq sample_eval)
  show ?thesis
    by (simp add: pressed_editor_def [symmetric] second drag_inv_def pressed_fields sample_fields)
qed

text \<open>
  C9, amended. The invariant that \<open>isDragging\<close> implies a \<open>dragPoint\<close> other than
  \<^verbatim>\<open>null\<close> holds in the constructed state. \<open>onMouseUp\<close> establishes it from any
  state and \<open>onMouseMove\<close> neither breaks nor restores it. After \<open>onMouseDown\<close> it
  holds exactly when, with the points shown, the press is not one that hits no point
  while \<open>isDragging\<close> is set, and, with the points hidden, when it held before. So
  the state after a sequence of events satisfies it exactly as its last event decides,
  and it holds after every sequence in which no \<^verbatim>\<open>mousedown\<close> misses every point
  while the points are shown and \<open>isDragging\<close> is set.
\<close>

theorem drag_invariant_up_to_missed_press:
  "drag_inv new_editor
   \<and> (drag_inv (onMouseDown s e) \<longleftrightarrow>
        (if showControlPoints s then \<not> press_misses_during_drag s e else drag_inv s))
   \<and> (\<forall>s'. onMouseMove s e = Inr s' \<longrightarrow> (drag_inv s' \<longleftrightarrow> drag_inv s))
   \<and> drag_inv (onMouseUp s)
   \<and> (drag_inv (run s (evs @ [ev])) \<longleftrightarrow>
        (case ev of
           MouseDown e' \<Rightarrow>
             (if showControlPoints (run s evs) then \<not> press_misses_during_drag (run s evs) e'
              else drag_inv (run s evs))
         | MouseMove e' \<Rightarrow> drag_inv (run s evs)
         | MouseUp e' \<Rightarrow> True
         | MouseLeave e' \<Rightarrow> True))
   \<and> (drag_inv s \<longrightarrow> no_missed_press_during_drag s evs \<longrightarrow> drag_inv (run s evs))"
proof (intro conjI allI impI)
  show "drag_inv new_editor"
    by (simp add: drag_inv_def new_editor_def)
  show "drag_inv (onMouseDown s e) \<longleftrightarrow>
        (if showControlPoints s then \<not> press_misses_during_drag s e else drag_inv s)"
    by (rule drag_inv_onMouseDown)
  show "drag_inv s' \<longleftrightarrow> drag_inv s" if "onMouseMove s e = Inr s'" for s'
    using that by (rule drag_inv_onMouseMove)
  show "drag_inv (onMouseUp s)"
    by (rule drag_inv_onMouseUp)
  show "drag_inv (run s (evs @ [ev])) \<longleftrightarrow>
        (case ev of
           MouseDown e' \<Rightarrow>
             (if showControlPoints (run s evs) then \<not> press_misses_during_drag (run s evs) e'
              else drag_inv (run s evs))
         | MouseMove e' \<Rightarrow> drag_inv (run s evs)
         | MouseUp e' \<Rightarrow> True
         | MouseLeave e' \<Rightarrow> True)"
    unfolding run_snoc by (rule drag_inv_dispatch)
  show "drag_inv (run s evs)" if "drag_inv s" "no_missed_press_during_drag s evs"
    using that by (rule drag_inv_run)
qed

text \<open>
  On the sample page a second press at (90, 50) while the point there is being dragged
  hits that point again and keeps the invariant; the drag goes on and a release ends
  it.
\<close>

theorem drag_invariant_up_to_missed_press_witness:
  "drag_inv sample_editor
   \<and> no_missed_press_during_drag sample_editor
        [MouseDown (at_pos 90 50), MouseDown (at_pos 90 50), MouseMove (at_pos 94 46)]
   \<and> isDragging (run sample_editor [MouseDown (at_pos 90 50)])
   \<and> \<not> press_misses_during_drag (run sample_editor [MouseDown (at_pos 90 50)]) (at_pos 90 50)
   \<and> isDragging (run sample_editor [MouseDown (at_pos 90 50), MouseDown (at_pos 90 50)])
   \<and> dragPoint (run sample_editor [MouseDown (at_pos 90 50), MouseDown (at_pos 90 50)])
       = Some \<lparr> cmdIndex = 1, pointType = PtMain \<rparr>
   \<and> drag_inv (run sample_editor
        [MouseDown (at_pos 90 50), MouseDown (at_pos 90 50), MouseMove (at_pos 94 46)])
   \<and> press_misses_during_drag (run sample_editor [MouseDown (at_pos 90 50)]) (at_pos 50 50)
   \<and> \<not> drag_inv (run sample_editor ([MouseDown (at_pos 90 50)] @ [MouseDown (at_pos 50 50)]))"
proof -
  have start: "drag_inv sample_editor"
    by (simp add: drag_inv_def sample_fields)
  have again: "onMouseDown pressed_editor (at_pos 90 50) = pressed_editor"
    by (simp add: onMouseDown_def pressed_editor_eq sample_eval)
  have hit: "\<not> press_misses_during_drag pressed_editor (at_pos 90 50)"
    and miss: "press_misses_during_drag pressed_editor (at_pos 50 50)"
    by (simp_all add: press_misses_during_drag_def pressed_editor_eq sample_eval)
  have shown: "showControlPoints pressed_editor"
    by (simp add: pressed_editor_eq sample_fields)
  have presses: "no_missed_press_during_drag sample_editor
        [MouseDown (at_pos 90 50), MouseDown (at_pos 90 50), MouseMove (at_pos 94 46)]"
    using hit
    by (simp add: press_misses_during_drag_def sample_fields pressed_editor_def [symmetric] again)
  have once: "run sample_editor [MouseDown (at_pos 90 50)] = pressed_editor"
    and twice: "run sample_editor [MouseDown (at_pos 90 50), MouseDown (at_pos 90 50)]
        = pressed_editor"
    by (simp_all add: pressed_editor_def [symmetric] again)
  note amended = drag_invariant_up_to_missed_press
  have holds: "drag_inv (run sample_editor
        [MouseDown (at_pos 90 50), MouseDown (at_pos 90 50), MouseMove (at_pos 94 46)])"
    using amended [of sample_editor "at_pos 90 50"
        "[MouseDown (at_pos 90 50), MouseDown (at_pos 90 50), MouseMove (at_pos 94 46)]"
        "MouseDown (at_pos 90 50)"] start presses
    by blast
  have "drag_inv (run sample_editor ([MouseDown (at_pos 90 50)] @ [MouseDown (at_pos 50 50)]))
      \<longleftrightarrow> (if showControlPoints (run sample_editor [MouseDown (at_pos 90 50)])
           then \<not> press_misses_during_drag (run sample_editor [MouseDown (at_pos 90 50)])
                    (at_pos 50 50)
           else drag_inv (run sample_editor [MouseDown (at_pos 90 50)]))"
    using amended [of sample_editor "at_pos 90 50" "[MouseDown (at_pos 90 50)]"
        "MouseDown (at_pos 50 50)"]
    by (simp only: canvas_event.case)
  then have "drag_inv (run sample_editor ([MouseDown (at_pos 90 50)] @ [MouseDown (at_pos 50 50)]))
      \<longleftrightarrow> \<not> press_misses_during_drag pressed_editor (at_pos 50 50)"
    unfolding once using shown by (simp only: if_True)
  with miss
  have fails: "\<not> drag_inv (run sample_editor ([MouseDown (at_pos 90 50)] @ [MouseDown (at_pos 50 50)]))"
    by blast
  have state: "isDragging (run sample_editor [MouseDown (at_pos 90 50)])"
    "isDragging (run sample_editor [MouseDown (at_pos 90 50), MouseDown (at_pos 90 50)])"
    "dragPoint (run sample_editor [MouseDown (at_pos 90 50), MouseDown (at_pos 90 50)])
       = Some \<lparr> cmdIndex = 1, pointType = PtMain \<rparr>"
    unfolding once twice by (simp_all add: pressed_fields)
  show ?thesis
    using start presses hit miss holds fails state unfolding once by blast
qed

subsection \<open>The transform and its inverse in exact arithmetic\<close>

text \<open>
  In exact arithmetic the two maps are inverse to each other wherever the scale is
  not zero.
\<close>

lemma transform_round_trip_exact:
  assumes "scale s \<noteq> 0"
  shows "(case transformPoint s px py of (sx, sy) \<Rightarrow> inverseTransformPoint s sx sy) = (px, py)
       \<and> (case inverseTransformPoint s sx' sy' of (wx, wy) \<Rightarrow> transformPoint s wx wy) = (sx', sy')"
  using assms by (simp add: transformPoint_def inverseTransformPoint_def)

lemma transform_round_trip_exact_sample:
  "scale (new_editor \<lparr> scale := 2, offsetX := 10, offsetY := 20 \<rparr>) \<noteq> 0
   \<and> transformPoint (new_editor \<lparr> scale := 2, offsetX := 10, offsetY := 20 \<rparr>) 3 5 = (16, 10)
   \<and> inverseTransformPoint (new_editor \<lparr> scale := 2, offsetX := 10, offsetY := 20 \<rparr>) 16 10 = (3, 5)
   \<and> (case transformPoint (new_editor \<lparr> scale := 2, offsetX := 10, offsetY := 20 \<rparr>) 3 5 of
         (sx, sy) \<Rightarrow> inverseTransformPoint (new_editor \<lparr> scale := 2, offsetX := 10, offsetY := 20 \<rparr>) sx sy)
       = (3, 5)"
proof -
  have nz: "scale (new_editor \<lparr> scale := 2, offsetX := 10, offsetY := 20 \<rparr>) \<noteq> 0"
    by simp
  show ?thesis
    using nz transform_round_trip_exact [OF nz, of 3 5 16 10]
    by (simp add: transformPoint_def inverseTransformPoint_def)
qed

subsection \<open>The rounding error of the double operators\<close>

text \<open>Powers of two, and the binade of a real.\<close>

lemma pow2_powr: "pow2 n = 2 powr (of_int n)"
proof (cases "0 \<le> n")
  case True
  then show ?thesis
    by (simp add: pow2_def powr_realpow [symmetric])
next
  case False
  then have "(2::real) powr (of_int n) = 1 / 2 powr (of_int (- n))"
    by (simp add: powr_minus_divide)
  also have "\<dots> = 1 / 2 ^ nat (- n)"
    using False by (simp add: powr_realpow [symmetric])
  finally show ?thesis
    using False by (simp add: pow2_def)
qed

lemma pow2_pos: "0 < pow2 n"
  by (simp add: pow2_def)

lemma pow2_add: "pow2 (m + n) = pow2 m * pow2 n"
  by (simp add: pow2_powr powr_add)

lemma pow2_mono: "m \<le> n \<Longrightarrow> pow2 m \<le> pow2 n"
  by (simp add: pow2_powr)

lemma pow2_strict_mono: "m < n \<Longrightarrow> pow2 m < pow2 n"
  by (simp add: pow2_powr)

lemma floorlog_2_bounds:
  assumes "0 < n"
  shows "0 < floorlog 2 n" and "(2::real) ^ (floorlog 2 n - 1) \<le> of_nat n"
    and "of_nat n + 1 \<le> (2::real) ^ floorlog 2 n"
proof -
  have b: "2 ^ (floorlog 2 n - 1) \<le> n" "n < 2 ^ floorlog 2 n"
    using floorlog_bounds [of n 2] assms by simp_all
  show "0 < floorlog 2 n"
    using assms by (simp add: floorlog_def)
  have "(of_nat (2 ^ (floorlog 2 n - 1)) :: real) \<le> of_nat n"
    using b(1) by (simp only: of_nat_le_iff)
  then show "(2::real) ^ (floorlog 2 n - 1) \<le> of_nat n"
    by simp
  have "n + 1 \<le> 2 ^ floorlog 2 n"
    using b(2) by simp
  then have "(of_nat (n + 1) :: real) \<le> of_nat (2 ^ floorlog 2 n)"
    by (simp only: of_nat_le_iff)
  then show "of_nat n + 1 \<le> (2::real) ^ floorlog 2 n"
    by simp
qed

lemma binade_bounds:
  assumes "v \<noteq> 0"
  shows "pow2 (binade v) \<le> \<bar>v\<bar>" and "\<bar>v\<bar> < pow2 (binade v + 1)"
proof -
  have "pow2 (binade v) \<le> \<bar>v\<bar> \<and> \<bar>v\<bar> < pow2 (binade v + 1)"
  proof (cases "1 \<le> \<bar>v\<bar>")
    case True
    define n where "n = nat \<lfloor>\<bar>v\<bar>\<rfloor>"
    define L where "L = floorlog 2 n"
    have fl: "1 \<le> \<lfloor>\<bar>v\<bar>\<rfloor>"
      using True by (simp add: le_floor_iff)
    then have n: "0 < n"
      by (simp add: n_def)
    have rn: "real n = of_int \<lfloor>\<bar>v\<bar>\<rfloor>"
      using fl by (simp add: n_def)
    have lo: "real n \<le> \<bar>v\<bar>" and hi: "\<bar>v\<bar> < real n + 1"
      unfolding rn by linarith+
    note fb = floorlog_2_bounds [OF n, folded L_def]
    have b: "binade v = int L - 1"
      using True by (simp add: binade_def n_def L_def)
    have p1: "pow2 (int L - 1) = 2 ^ (L - 1)"
      using fb(1) by (simp add: pow2_def nat_diff_distrib')
    have p2: "pow2 (int L - 1 + 1) = 2 ^ L"
      by (simp add: pow2_def)
    show ?thesis
      unfolding b p1 p2 using fb(2,3) lo hi by linarith
  next
    case False
    define x where "x = 1 / \<bar>v\<bar>"
    define n where "n = nat (\<lceil>x\<rceil> - 1)"
    define L where "L = floorlog 2 n"
    have v: "0 < \<bar>v\<bar>" "\<bar>v\<bar> < 1"
      using assms False by simp_all
    then have x: "1 < x"
      by (simp add: x_def)
    then have c: "2 \<le> \<lceil>x\<rceil>"
      by (simp add: le_ceiling_iff)
    then have n: "0 < n"
      by (simp add: n_def)
    have rn: "real n = of_int \<lceil>x\<rceil> - 1"
      using c by (simp add: n_def)
    have lo: "real n < x" and hi: "x \<le> real n + 1"
      unfolding rn by linarith+
    note fb = floorlog_2_bounds [OF n, folded L_def]
    have b: "binade v = - int L"
      using False by (simp add: binade_def n_def L_def x_def)
    have p1: "pow2 (- int L) = 1 / 2 ^ L"
      using fb(1) by (simp add: pow2_def)
    have "pow2 (- int L + 1) = pow2 (- int (L - 1))"
      using fb(1) by (simp add: of_nat_diff)
    also have "\<dots> = 1 / 2 ^ (L - 1)"
      by (simp add: pow2_powr powr_minus_divide powr_realpow)
    finally have p2: "pow2 (- int L + 1) = 1 / 2 ^ (L - 1)" .
    have vx: "\<bar>v\<bar> = 1 / x"
      by (simp add: x_def)
    have "x \<le> 2 ^ L"
      using hi fb(3) by linarith
    then have a1: "1 / 2 ^ L \<le> 1 / x"
      using x by (simp add: frac_le)
    have "2 ^ (L - 1) < x"
      using lo fb(2) by linarith
    then have a2: "1 / x < 1 / 2 ^ (L - 1)"
      by (simp add: frac_less2)
    show ?thesis
      unfolding b p1 p2 vx using a1 a2 by simp
  qed
  then show "pow2 (binade v) \<le> \<bar>v\<bar>" and "\<bar>v\<bar> < pow2 (binade v + 1)"
    by simp_all
qed

lemma binade_eqI:
  assumes "pow2 e \<le> \<bar>v\<bar>" "\<bar>v\<bar> < pow2 (e + 1)"
  shows "binade v = e"
proof (rule ccontr)
  assume ne: "binade v \<noteq> e"
  have "v \<noteq> 0"
    using assms(1) pow2_pos [of e] by auto
  note b = binade_bounds [OF this]
  show False
  proof (cases "binade v < e")
    case True
    then have "pow2 (binade v + 1) \<le> pow2 e"
      by (intro pow2_mono) simp
    with b(2) assms(1) show False
      by linarith
  next
    case False
    with ne have "pow2 (e + 1) \<le> pow2 (binade v)"
      by (intro pow2_mono) simp
    with b(1) assms(2) show False
      by linarith
  qed
qed

text \<open>
  A rounded result is within half a unit in the last place of the exact one, which is
  at most \<open>2 ^ 53\<close>-th of its magnitude.
\<close>

lemma round_even_close: "\<bar>of_int (round_even v) - v\<bar> \<le> 1 / 2"
  unfolding round_even_def Let_def by (auto simp: abs_le_iff)

lemma pow2_diff_53: "pow2 (e - 52) / 2 = pow2 e / 2 ^ 53"
proof -
  have "pow2 e = pow2 (e - 52) * pow2 52"
    using pow2_add [of "e - 52" 52] by simp
  then show ?thesis
    by (simp add: pow2_def)
qed

lemma fl64_error:
  assumes "fl64 v = Some r"
  shows "\<bar>r - v\<bar> \<le> \<bar>v\<bar> / 2 ^ 53"
proof (cases "v = 0")
  case True
  with assms show ?thesis by (simp add: fl64_def)
next
  case False
  define q where "q = pow2 (binade v - 52)"
  have q: "0 < q" by (simp add: q_def pow2_pos)
  have r: "r = of_int (round_even (v / q)) * q"
    using assms False by (simp add: fl64_def Let_def q_def split: if_splits)
  have "\<bar>r - v\<bar> = \<bar>of_int (round_even (v / q)) - v / q\<bar> * q"
  proof -
    have "r - v = (of_int (round_even (v / q)) - v / q) * q"
      using q by (simp add: r field_simps)
    then show ?thesis
      using q by (simp add: abs_mult)
  qed
  also have "\<dots> \<le> 1 / 2 * q"
    using round_even_close [of "v / q"] q by (intro mult_right_mono) simp_all
  also have "\<dots> = pow2 (binade v) / 2 ^ 53"
    using pow2_diff_53 [of "binade v"] by (simp add: q_def)
  also have "\<dots> \<le> \<bar>v\<bar> / 2 ^ 53"
    using binade_bounds(1) [OF False] by (simp add: divide_right_mono)
  finally show ?thesis .
qed

lemma f64_addD: "f64_add a b = Some r \<Longrightarrow> \<bar>r - (a + b)\<bar> \<le> \<bar>a + b\<bar> / 2 ^ 53"
  unfolding f64_add_def by (rule fl64_error)

lemma f64_subD: "f64_sub a b = Some r \<Longrightarrow> \<bar>r - (a - b)\<bar> \<le> \<bar>a - b\<bar> / 2 ^ 53"
  unfolding f64_sub_def by (rule fl64_error)

lemma f64_mulD: "f64_mul a b = Some r \<Longrightarrow> \<bar>r - a * b\<bar> \<le> \<bar>a * b\<bar> / 2 ^ 53"
  unfolding f64_mul_def by (rule fl64_error)

lemma f64_divD:
  assumes "f64_div a b = Some r"
  shows "b \<noteq> 0" and "\<bar>r - a / b\<bar> \<le> \<bar>a / b\<bar> / 2 ^ 53"
proof -
  from assms show "b \<noteq> 0"
    by (auto simp: f64_div_def)
  with assms have "fl64 (a / b) = Some r"
    by (simp add: f64_div_def)
  then show "\<bar>r - a / b\<bar> \<le> \<bar>a / b\<bar> / 2 ^ 53"
    by (rule fl64_error)
qed

text \<open>Evaluating \<open>fl64\<close> on a real whose binade is known.\<close>

lemma round_even_bound:
  assumes "\<bar>v\<bar> < of_int n"
  shows "\<bar>round_even v\<bar> \<le> n"
proof -
  have "\<bar>of_int (round_even v) - v\<bar> \<le> 1 / 2"
    by (rule round_even_close)
  with assms have "\<bar>of_int (round_even v) :: real\<bar> < of_int n + 1"
    by linarith
  then have "(of_int \<bar>round_even v\<bar> :: real) < of_int (n + 1)"
    by simp
  then have "\<bar>round_even v\<bar> < n + 1"
    by (simp only: of_int_less_iff)
  then show ?thesis
    by simp
qed

lemma fl64_eval:
  assumes lo: "pow2 e \<le> \<bar>v\<bar>" and hi: "\<bar>v\<bar> < pow2 (e + 1)"
    and e: "- 1022 \<le> e" "e \<le> 1022"
    and r: "r = of_int (round_even (v / pow2 (e - 52))) * pow2 (e - 52)"
  shows "fl64 v = Some r"
proof -
  have b: "binade v = e"
    by (rule binade_eqI [OF lo hi])
  have v: "v \<noteq> 0"
    using lo pow2_pos [of e] by auto
  define q where "q = pow2 (e - 52)"
  have q: "0 < q"
    by (simp add: q_def pow2_pos)
  have p53: "pow2 53 = 2 ^ 53"
    by (simp add: pow2_def)
  have "e + 1 = 53 + (e - 52)"
    by simp
  then have "pow2 (e + 1) = pow2 (53 + (e - 52))"
    by (rule arg_cong)
  also have "\<dots> = pow2 53 * pow2 (e - 52)"
    by (rule pow2_add)
  finally have split: "pow2 (e + 1) = 2 ^ 53 * q"
    by (simp only: p53 q_def)
  have "\<bar>v / q\<bar> < 2 ^ 53"
    using hi q by (simp add: split pos_divide_less_eq)
  then have "\<bar>v / q\<bar> < of_int (2 ^ 53)"
    by simp
  then have "\<bar>round_even (v / q)\<bar> \<le> 2 ^ 53"
    by (rule round_even_bound)
  then have "(of_int \<bar>round_even (v / q)\<bar> :: real) \<le> of_int (2 ^ 53)"
    by (simp only: of_int_le_iff)
  then have "\<bar>of_int (round_even (v / q)) :: real\<bar> \<le> 2 ^ 53"
    by simp
  then have "\<bar>of_int (round_even (v / q)) * q\<bar> \<le> 2 ^ 53 * q"
    using q by (simp add: abs_mult)
  then have "\<bar>r\<bar> \<le> pow2 (e + 1)"
    by (simp add: r split q_def)
  also have "\<dots> < pow2 1024"
    using e by (intro pow2_strict_mono) simp
  finally have "\<not> pow2 1024 \<le> \<bar>r\<bar>"
    by simp
  then show ?thesis
    using e v by (simp add: fl64_def b Let_def r)
qed

text \<open>The literal \<^verbatim>\<open>0.8\<close> denotes the double nearest to four fifths.\<close>

lemma double_0_8_nearest: "fl64 (8 / 10) = Some double_0_8"
  unfolding double_0_8_def by (rule fl64_eval [where e = "- 1"]) (simp_all add: pow2_def round_even_def Let_def)

lemma double_0_8_bounds: "0 < double_0_8" "double_0_8 \<le> 8 / 10 * (1 + 1 / 2 ^ 53)"
  by (simp_all add: double_0_8_def)

text \<open>Relative errors under scaling, and their accumulation.\<close>

lemma rel_div:
  fixes a b k e :: real
  assumes "\<bar>a - b\<bar> \<le> e * \<bar>b\<bar>"
  shows "\<bar>a / k - b / k\<bar> \<le> e * \<bar>b / k\<bar>"
proof -
  have "\<bar>a / k - b / k\<bar> = \<bar>a - b\<bar> / \<bar>k\<bar>"
    by (simp add: diff_divide_distrib [symmetric])
  also have "\<dots> \<le> e * \<bar>b\<bar> / \<bar>k\<bar>"
    using assms by (simp add: divide_right_mono)
  finally show ?thesis by simp
qed

lemma rel_mult:
  fixes a b k e :: real
  assumes "\<bar>a - b\<bar> \<le> e * \<bar>b\<bar>"
  shows "\<bar>a * k - b * k\<bar> \<le> e * \<bar>b * k\<bar>"
proof -
  have "\<bar>a * k - b * k\<bar> = \<bar>a - b\<bar> * \<bar>k\<bar>"
    by (simp add: left_diff_distrib [symmetric] abs_mult)
  also have "\<dots> \<le> e * \<bar>b\<bar> * \<bar>k\<bar>"
    using assms by (simp add: mult_right_mono)
  finally show ?thesis by (simp add: abs_mult mult.assoc)
qed

lemma rel_step:
  fixes a b B :: real
  assumes "\<bar>a - b\<bar> \<le> \<bar>b\<bar> / 2 ^ 53" "\<bar>b\<bar> \<le> B"
  shows "\<bar>a - b\<bar> \<le> B / 2 ^ 53" and "\<bar>a\<bar> \<le> B + B / 2 ^ 53"
proof -
  show 1: "\<bar>a - b\<bar> \<le> B / 2 ^ 53"
    using assms by (simp add: field_simps)
  show "\<bar>a\<bar> \<le> B + B / 2 ^ 53"
    using 1 assms(2) by linarith
qed

lemma rel_div':
  fixes a b k :: real
  assumes "\<bar>a - b\<bar> \<le> \<bar>b\<bar> / 2 ^ 53"
  shows "\<bar>a / k - b / k\<bar> \<le> \<bar>b / k\<bar> / 2 ^ 53"
  using rel_div [of a b "1 / 2 ^ 53" k] assms by simp

lemma rel_mult':
  fixes a b k :: real
  assumes "\<bar>a - b\<bar> \<le> \<bar>b\<bar> / 2 ^ 53"
  shows "\<bar>a * k - b * k\<bar> \<le> \<bar>b * k\<bar> / 2 ^ 53"
  using rel_mult [of a b "1 / 2 ^ 53" k] assms by simp

lemma rel_small: "0 < t \<Longrightarrow> t / 2 ^ 53 < (t::real)"
  by simp

lemma tri2:
  fixes a b c e1 e2 :: real
  assumes "\<bar>a - b\<bar> \<le> e1" "\<bar>b - c\<bar> \<le> e2"
  shows "\<bar>a - c\<bar> \<le> e1 + e2"
  using assms by linarith

lemma tri3:
  fixes q g s p e1 e2 e3 :: real
  assumes "\<bar>q - g\<bar> \<le> e1" "\<bar>g - s / 2\<bar> \<le> e2" "\<bar>s - p\<bar> \<le> e3"
  shows "\<bar>q - p / 2\<bar> \<le> e1 + e2 + e3 / 2"
  using assms by linarith

subsection \<open>The transform and its inverse in doubles\<close>

text \<open>Four rounded operations there and back, in either order.\<close>

lemma round_trip_chain:
  fixes c w p t d r :: real
  assumes p: "\<bar>p - c\<bar> \<le> \<bar>c\<bar> / 2 ^ 53"
    and t: "\<bar>t - (w + p)\<bar> \<le> \<bar>w + p\<bar> / 2 ^ 53"
    and d: "\<bar>d - (t - w)\<bar> \<le> \<bar>t - w\<bar> / 2 ^ 53"
    and r: "\<bar>r - d\<bar> \<le> \<bar>d\<bar> / 2 ^ 53"
  shows "\<bar>r - c\<bar> \<le> 5 * (\<bar>c\<bar> + \<bar>w\<bar>) / 2 ^ 53"
proof -
  define C W where "C = \<bar>c\<bar>" and "W = \<bar>w\<bar>"
  define B1 where "B1 = C + C / 2 ^ 53"
  define B2 where "B2 = W + B1"
  define B3 where "B3 = B1 + B2 / 2 ^ 53"
  define B4 where "B4 = B3 + B3 / 2 ^ 53"
  have nonneg: "0 \<le> C" "0 \<le> W"
    by (simp_all add: C_def W_def)
  have p1: "\<bar>p - c\<bar> \<le> C / 2 ^ 53" and p2: "\<bar>p\<bar> \<le> B1"
    using rel_step [OF p, of C] by (simp_all add: C_def B1_def)
  have "\<bar>w + p\<bar> \<le> B2"
    using p2 unfolding B2_def W_def by linarith
  from rel_step(1) [OF t this] have t1: "\<bar>t - (w + p)\<bar> \<le> B2 / 2 ^ 53" .
  have "\<bar>t - w\<bar> \<le> B3"
    using t1 p2 unfolding B3_def by linarith
  from rel_step [OF d this]
  have d1: "\<bar>d - (t - w)\<bar> \<le> B3 / 2 ^ 53" and d2: "\<bar>d\<bar> \<le> B4"
    by (simp_all add: B4_def)
  from rel_step(1) [OF r d2] have r1: "\<bar>r - d\<bar> \<le> B4 / 2 ^ 53" .
  have "\<bar>r - c\<bar> \<le> B4 / 2 ^ 53 + B3 / 2 ^ 53 + B2 / 2 ^ 53 + C / 2 ^ 53"
    using r1 d1 t1 p1 by linarith
  also have "\<dots> \<le> 5 * (C + W) / 2 ^ 53"
    using nonneg unfolding B4_def B3_def B2_def B1_def by (simp add: add_divide_distrib)
  finally show ?thesis
    by (simp add: C_def W_def)
qed

lemma there_and_back_x:
  assumes k: "k \<noteq> 0"
    and p: "f64_mul c k = Some p" and t: "f64_add w p = Some t"
    and d: "f64_sub t w = Some d" and r: "f64_div d k = Some r"
  shows "\<bar>r - c\<bar> \<le> 5 * (\<bar>c\<bar> + \<bar>w / k\<bar>) / 2 ^ 53"
proof -
  have 1: "\<bar>p / k - c\<bar> \<le> \<bar>c\<bar> / 2 ^ 53"
    using rel_div' [OF f64_mulD [OF p], of k] k by simp
  have 2: "\<bar>t / k - (w / k + p / k)\<bar> \<le> \<bar>w / k + p / k\<bar> / 2 ^ 53"
    using rel_div' [OF f64_addD [OF t], of k] by (simp add: add_divide_distrib)
  have 3: "\<bar>d / k - (t / k - w / k)\<bar> \<le> \<bar>t / k - w / k\<bar> / 2 ^ 53"
    using rel_div' [OF f64_subD [OF d], of k] by (simp add: diff_divide_distrib)
  have 4: "\<bar>r - d / k\<bar> \<le> \<bar>d / k\<bar> / 2 ^ 53"
    using f64_divD(2) [OF r] by simp
  show ?thesis
    by (rule round_trip_chain [OF 1 2 3 4])
qed

lemma there_and_back_y:
  assumes k: "k \<noteq> 0"
    and p: "f64_mul c k = Some p" and t: "f64_sub w p = Some t"
    and d: "f64_sub t w = Some d" and r: "f64_div (- d) k = Some r"
  shows "\<bar>r - c\<bar> \<le> 5 * (\<bar>c\<bar> + \<bar>w / k\<bar>) / 2 ^ 53"
proof -
  have 1: "\<bar>p / k - c\<bar> \<le> \<bar>c\<bar> / 2 ^ 53"
    using rel_div' [OF f64_mulD [OF p], of k] k by simp
  have 2: "\<bar>- t / k - (- w / k + p / k)\<bar> \<le> \<bar>- w / k + p / k\<bar> / 2 ^ 53"
    using rel_div' [OF f64_subD [OF t], of "- k"]
    by (simp add: diff_divide_distrib add_divide_distrib)
  have 3: "\<bar>- d / k - (- t / k - (- w / k))\<bar> \<le> \<bar>- t / k - (- w / k)\<bar> / 2 ^ 53"
    using rel_div' [OF f64_subD [OF d], of "- k"]
    by (simp add: diff_divide_distrib)
  have 4: "\<bar>r - (- d / k)\<bar> \<le> \<bar>- d / k\<bar> / 2 ^ 53"
    using f64_divD(2) [OF r] by simp
  have "\<bar>r - c\<bar> \<le> 5 * (\<bar>c\<bar> + \<bar>- w / k\<bar>) / 2 ^ 53"
    by (rule round_trip_chain [OF 1 2 3 4])
  then show ?thesis by simp
qed

lemma back_and_there_chain:
  fixes s w d e p X :: real
  assumes d: "\<bar>d - (s - w)\<bar> \<le> \<bar>s - w\<bar> / 2 ^ 53"
    and e: "\<bar>e - d\<bar> \<le> \<bar>d\<bar> / 2 ^ 53"
    and p: "\<bar>p - e\<bar> \<le> \<bar>e\<bar> / 2 ^ 53"
    and X: "\<bar>X - (w + p)\<bar> \<le> \<bar>w + p\<bar> / 2 ^ 53"
  shows "\<bar>X - s\<bar> \<le> 5 * (\<bar>s\<bar> + \<bar>w\<bar>) / 2 ^ 53"
proof -
  define S W where "S = \<bar>s\<bar>" and "W = \<bar>w\<bar>"
  define A0 where "A0 = S + W"
  define A1 where "A1 = A0 + A0 / 2 ^ 53"
  define A2 where "A2 = A1 + A1 / 2 ^ 53"
  define A3 where "A3 = S + (A0 / 2 ^ 53 + A1 / 2 ^ 53 + A2 / 2 ^ 53)"
  have nonneg: "0 \<le> S" "0 \<le> W"
    by (simp_all add: S_def W_def)
  have "\<bar>s - w\<bar> \<le> A0"
    unfolding A0_def S_def W_def by linarith
  from rel_step [OF d this]
  have d1: "\<bar>d - (s - w)\<bar> \<le> A0 / 2 ^ 53" and d2: "\<bar>d\<bar> \<le> A1"
    by (simp_all add: A1_def)
  from rel_step [OF e d2]
  have e1: "\<bar>e - d\<bar> \<le> A1 / 2 ^ 53" and e2: "\<bar>e\<bar> \<le> A2"
    by (simp_all add: A2_def)
  from rel_step(1) [OF p e2] have p1: "\<bar>p - e\<bar> \<le> A2 / 2 ^ 53" .
  have close: "\<bar>p - (s - w)\<bar> \<le> A0 / 2 ^ 53 + A1 / 2 ^ 53 + A2 / 2 ^ 53"
    using d1 e1 p1 by linarith
  then have "\<bar>w + p\<bar> \<le> A3"
    unfolding A3_def S_def by linarith
  from rel_step(1) [OF X this] have X1: "\<bar>X - (w + p)\<bar> \<le> A3 / 2 ^ 53" .
  have "\<bar>X - s\<bar> \<le> A3 / 2 ^ 53 + (A0 / 2 ^ 53 + A1 / 2 ^ 53 + A2 / 2 ^ 53)"
    using X1 close by linarith
  also have "\<dots> \<le> 5 * (S + W) / 2 ^ 53"
    using nonneg unfolding A3_def A2_def A1_def A0_def by (simp add: add_divide_distrib)
  finally show ?thesis
    by (simp add: S_def W_def)
qed

lemma back_and_there_x:
  assumes d: "f64_sub s w = Some d" and v: "f64_div d k = Some v"
    and p: "f64_mul v k = Some p" and X: "f64_add w p = Some X"
  shows "\<bar>X - s\<bar> \<le> 5 * (\<bar>s\<bar> + \<bar>w\<bar>) / 2 ^ 53"
proof -
  have k: "k \<noteq> 0"
    using f64_divD(1) [OF v] .
  have 1: "\<bar>d - (s - w)\<bar> \<le> \<bar>s - w\<bar> / 2 ^ 53"
    using f64_subD [OF d] .
  have 2: "\<bar>v * k - d\<bar> \<le> \<bar>d\<bar> / 2 ^ 53"
    using rel_mult' [OF f64_divD(2) [OF v], of k] k by simp
  have 3: "\<bar>p - v * k\<bar> \<le> \<bar>v * k\<bar> / 2 ^ 53"
    using f64_mulD [OF p] .
  have 4: "\<bar>X - (w + p)\<bar> \<le> \<bar>w + p\<bar> / 2 ^ 53"
    using f64_addD [OF X] .
  show ?thesis
    by (rule back_and_there_chain [OF 1 2 3 4])
qed

lemma back_and_there_y:
  assumes d: "f64_sub s w = Some d" and v: "f64_div (- d) k = Some v"
    and p: "f64_mul v k = Some p" and X: "f64_sub w p = Some X"
  shows "\<bar>X - s\<bar> \<le> 5 * (\<bar>s\<bar> + \<bar>w\<bar>) / 2 ^ 53"
proof -
  have k: "k \<noteq> 0"
    using f64_divD(1) [OF v] .
  have 1: "\<bar>d - (s - w)\<bar> \<le> \<bar>s - w\<bar> / 2 ^ 53"
    using f64_subD [OF d] .
  have 2: "\<bar>- (v * k) - d\<bar> \<le> \<bar>d\<bar> / 2 ^ 53"
    using rel_mult' [OF f64_divD(2) [OF v], of "- k"] k by simp
  have 3: "\<bar>- p - (- (v * k))\<bar> \<le> \<bar>- (v * k)\<bar> / 2 ^ 53"
    using f64_mulD [OF p] by (simp add: abs_minus_commute)
  have 4: "\<bar>X - (w + - p)\<bar> \<le> \<bar>w + - p\<bar> / 2 ^ 53"
    using f64_subD [OF X] by simp
  show ?thesis
    by (rule back_and_there_chain [OF 1 2 3 4])
qed

text \<open>The two sample states, operator by operator.\<close>

lemma seven_1: "f64_sub 29 0 = Some 29"
  unfolding f64_sub_def by (rule fl64_eval [where e = 4]) (simp_all add: pow2_def round_even_def Let_def)

lemma seven_2: "f64_div 29 7 = Some (4664442471205157 / 1125899906842624)"
  unfolding f64_div_def by (simp, rule fl64_eval [where e = 2]) (simp_all add: pow2_def round_even_def Let_def)

lemma seven_3: "f64_div (- 29) 7 = Some (- (4664442471205157 / 1125899906842624))"
  unfolding f64_div_def by (simp, rule fl64_eval [where e = 2]) (simp_all add: pow2_def round_even_def Let_def)

lemma seven_4: "f64_mul (4664442471205157 / 1125899906842624) 7 = Some (8162774324609025 / 281474976710656)"
  unfolding f64_mul_def by (rule fl64_eval [where e = 4]) (simp_all add: pow2_def round_even_def Let_def)

lemma seven_5: "f64_mul (- (4664442471205157 / 1125899906842624)) 7 = Some (- (8162774324609025 / 281474976710656))"
  unfolding f64_mul_def by (rule fl64_eval [where e = 4]) (simp_all add: pow2_def round_even_def Let_def)

lemma seven_6: "f64_add 0 (8162774324609025 / 281474976710656) = Some (8162774324609025 / 281474976710656)"
  unfolding f64_add_def by (rule fl64_eval [where e = 4]) (simp_all add: pow2_def round_even_def Let_def)

lemma seven_7: "f64_sub 0 (- (8162774324609025 / 281474976710656)) = Some (8162774324609025 / 281474976710656)"
  unfolding f64_sub_def by (rule fl64_eval [where e = 4]) (simp_all add: pow2_def round_even_def Let_def)

lemma seven_8: "f64_sub (8162774324609025 / 281474976710656) 0 = Some (8162774324609025 / 281474976710656)"
  unfolding f64_sub_def by (rule fl64_eval [where e = 4]) (simp_all add: pow2_def round_even_def Let_def)

lemma seven_9: "f64_div (8162774324609025 / 281474976710656) 7 = Some (4664442471205157 / 1125899906842624)"
  unfolding f64_div_def by (simp, rule fl64_eval [where e = 2]) (simp_all add: pow2_def round_even_def Let_def)

lemma seven_10: "f64_div (- (8162774324609025 / 281474976710656)) 7 = Some (- (4664442471205157 / 1125899906842624))"
  unfolding f64_div_def by (simp, rule fl64_eval [where e = 2]) (simp_all add: pow2_def round_even_def Let_def)

lemma fifth_1: "f64_mul 3 (3602879701896397 / 9007199254740992) = Some (1351079888211149 / 1125899906842624)"
  unfolding f64_mul_def by (rule fl64_eval [where e = 0]) (simp_all add: pow2_def round_even_def Let_def)

lemma fifth_2: "f64_add 150 (1351079888211149 / 1125899906842624) = Some (2659938529915699 / 17592186044416)"
  unfolding f64_add_def by (rule fl64_eval [where e = 7]) (simp_all add: pow2_def round_even_def Let_def)

lemma fifth_3: "f64_sub 150 (1351079888211149 / 1125899906842624) = Some (2617717283409101 / 17592186044416)"
  unfolding f64_sub_def by (rule fl64_eval [where e = 7]) (simp_all add: pow2_def round_even_def Let_def)

lemma fifth_4: "f64_sub (2659938529915699 / 17592186044416) 150 = Some (21110623253299 / 17592186044416)"
  unfolding f64_sub_def by (rule fl64_eval [where e = 0]) (simp_all add: pow2_def round_even_def Let_def)

lemma fifth_5: "f64_div (21110623253299 / 17592186044416) (3602879701896397 / 9007199254740992) = Some (105553116266495 / 35184372088832)"
  unfolding f64_div_def by (simp, rule fl64_eval [where e = 1]) (simp_all add: pow2_def round_even_def Let_def)

lemma fifth_6: "f64_sub (2617717283409101 / 17592186044416) 150 = Some (- (21110623253299 / 17592186044416))"
  unfolding f64_sub_def by (rule fl64_eval [where e = 0]) (simp_all add: pow2_def round_even_def Let_def)

lemmas seven_steps = seven_1 seven_2 seven_3 seven_4 seven_5 seven_6 seven_7 seven_8 seven_9 seven_10

lemmas fifth_steps = fifth_1 fifth_2 fifth_3 fifth_4 fifth_5 fifth_6

lemma sevenfold_inverse:
  "inverseTransformPoint_f64 sevenfold 29 29
     = Some (4664442471205157 / 1125899906842624, - (4664442471205157 / 1125899906842624))"
  by (simp add: inverseTransformPoint_f64_def sevenfold_def new_editor_def seven_steps)

lemma sevenfold_forward:
  "transformPoint_f64 sevenfold
       (4664442471205157 / 1125899906842624) (- (4664442471205157 / 1125899906842624))
     = Some (8162774324609025 / 281474976710656, 8162774324609025 / 281474976710656)"
  by (simp add: transformPoint_f64_def sevenfold_def new_editor_def seven_steps)

lemma centred_forward:
  "transformPoint_f64 centred 3 3
     = Some (2659938529915699 / 17592186044416, 2617717283409101 / 17592186044416)"
  by (simp add: transformPoint_f64_def centred_def new_editor_def fifth_steps)

lemma centred_inverse:
  "inverseTransformPoint_f64 centred
       (2659938529915699 / 17592186044416) (2617717283409101 / 17592186044416)
     = Some (105553116266495 / 35184372088832, 105553116266495 / 35184372088832)"
  by (simp add: inverseTransformPoint_f64_def centred_def new_editor_def fifth_steps)

lemma centred_scale_nearest: "fl64 (2 / 5) = Some (scale centred)"
proof -
  have "fl64 (2 / 5) = Some (3602879701896397 / 9007199254740992)"
    by (rule fl64_eval [where e = "- 2"]) (simp_all add: pow2_def round_even_def Let_def)
  then show ?thesis
    by (simp add: centred_def new_editor_def)
qed

text \<open>
  C4, as stated, fails in the arithmetic of the script, in both directions. With the
  scale 7 and no offset, the screen point (29, 29) goes to the font-unit point whose
  first coordinate is the double nearest to 29 / 7, and that point goes to the screen
  point with both coordinates 29.000000000000004. With the double nearest to 0.4 as
  the scale and the offsets 150, the font-unit point (3, 3) goes to a screen point that
  comes back with both coordinates 2.9999999999999716.
\<close>

theorem round_trip_not_exact_in_doubles:
  "inverseTransformPoint_f64 sevenfold 29 29
     = Some (4664442471205157 / 1125899906842624, - (4664442471205157 / 1125899906842624))
   \<and> transformPoint_f64 sevenfold
        (4664442471205157 / 1125899906842624) (- (4664442471205157 / 1125899906842624))
     = Some (8162774324609025 / 281474976710656, 8162774324609025 / 281474976710656)
   \<and> (8162774324609025 / 281474976710656 :: real) \<noteq> 29
   \<and> scale sevenfold \<noteq> 0
   \<and> fl64 (2 / 5) = Some (scale centred)
   \<and> transformPoint_f64 centred 3 3
     = Some (2659938529915699 / 17592186044416, 2617717283409101 / 17592186044416)
   \<and> inverseTransformPoint_f64 centred
        (2659938529915699 / 17592186044416) (2617717283409101 / 17592186044416)
     = Some (105553116266495 / 35184372088832, 105553116266495 / 35184372088832)
   \<and> (105553116266495 / 35184372088832 :: real) \<noteq> 3
   \<and> scale centred \<noteq> 0"
  by (simp add: sevenfold_inverse sevenfold_forward centred_forward centred_inverse
      centred_scale_nearest)
     (simp add: sevenfold_def centred_def)

text \<open>
  C4, amended. The round trip returns the point up to rounding. Whenever
  \<open>transformPoint\<close> and then \<open>inverseTransformPoint\<close> stay within the normal finite
  doubles, which they never do with a zero scale, the font-unit point that comes back
  differs from the point \<open>(x, y)\<close> it started from by at most
  \<open>5 * (\<bar>x\<bar> + \<bar>offsetX / scale\<bar>) / 2 ^ 53\<close> in the first coordinate and
  \<open>5 * (\<bar>y\<bar> + \<bar>offsetY / scale\<bar>) / 2 ^ 53\<close> in the second. Whenever
  \<open>inverseTransformPoint\<close> and then \<open>transformPoint\<close> stay within them, the screen
  point that comes back differs from the point \<open>(sx, sy)\<close> it started from by at most
  \<open>5 * (\<bar>sx\<bar> + \<bar>offsetX\<bar>) / 2 ^ 53\<close> and \<open>5 * (\<bar>sy\<bar> + \<bar>offsetY\<bar>) / 2 ^ 53\<close>.
  Equality holds in exact arithmetic (lemma \<open>transform_round_trip_exact\<close>) and not in
  doubles.
\<close>

theorem transform_round_trip_up_to_rounding:
  "(\<forall>sx sy wx wy.
      transformPoint_f64 s px py = Some (sx, sy) \<longrightarrow>
      inverseTransformPoint_f64 s sx sy = Some (wx, wy) \<longrightarrow>
      \<bar>wx - px\<bar> \<le> 5 * (\<bar>px\<bar> + \<bar>offsetX s / scale s\<bar>) / 2 ^ 53
      \<and> \<bar>wy - py\<bar> \<le> 5 * (\<bar>py\<bar> + \<bar>offsetY s / scale s\<bar>) / 2 ^ 53)
   \<and> (\<forall>wx wy sx sy.
      inverseTransformPoint_f64 s qx qy = Some (wx, wy) \<longrightarrow>
      transformPoint_f64 s wx wy = Some (sx, sy) \<longrightarrow>
      \<bar>sx - qx\<bar> \<le> 5 * (\<bar>qx\<bar> + \<bar>offsetX s\<bar>) / 2 ^ 53
      \<and> \<bar>sy - qy\<bar> \<le> 5 * (\<bar>qy\<bar> + \<bar>offsetY s\<bar>) / 2 ^ 53)"
proof (intro conjI allI impI)
  fix sx sy wx wy
  assume tr: "transformPoint_f64 s px py = Some (sx, sy)"
    and inv: "inverseTransformPoint_f64 s sx sy = Some (wx, wy)"
  from tr obtain a b where a: "f64_mul px (scale s) = Some a" "f64_add (offsetX s) a = Some sx"
    and b: "f64_mul py (scale s) = Some b" "f64_sub (offsetY s) b = Some sy"
    by (auto simp: transformPoint_f64_def bind_eq_Some_conv)
  from inv obtain c d where c: "f64_sub sx (offsetX s) = Some c" "f64_div c (scale s) = Some wx"
    and d: "f64_sub sy (offsetY s) = Some d" "f64_div (- d) (scale s) = Some wy"
    by (auto simp: inverseTransformPoint_f64_def bind_eq_Some_conv)
  have k: "scale s \<noteq> 0"
    using f64_divD(1) [OF c(2)] .
  show "\<bar>wx - px\<bar> \<le> 5 * (\<bar>px\<bar> + \<bar>offsetX s / scale s\<bar>) / 2 ^ 53"
    by (rule there_and_back_x [OF k a c])
  show "\<bar>wy - py\<bar> \<le> 5 * (\<bar>py\<bar> + \<bar>offsetY s / scale s\<bar>) / 2 ^ 53"
    by (rule there_and_back_y [OF k b d])
next
  fix wx wy sx sy
  assume inv: "inverseTransformPoint_f64 s qx qy = Some (wx, wy)"
    and tr: "transformPoint_f64 s wx wy = Some (sx, sy)"
  from inv obtain c d where c: "f64_sub qx (offsetX s) = Some c" "f64_div c (scale s) = Some wx"
    and d: "f64_sub qy (offsetY s) = Some d" "f64_div (- d) (scale s) = Some wy"
    by (auto simp: inverseTransformPoint_f64_def bind_eq_Some_conv)
  from tr obtain a b where a: "f64_mul wx (scale s) = Some a" "f64_add (offsetX s) a = Some sx"
    and b: "f64_mul wy (scale s) = Some b" "f64_sub (offsetY s) b = Some sy"
    by (auto simp: transformPoint_f64_def bind_eq_Some_conv)
  show "\<bar>sx - qx\<bar> \<le> 5 * (\<bar>qx\<bar> + \<bar>offsetX s\<bar>) / 2 ^ 53"
    by (rule back_and_there_x [OF c a])
  show "\<bar>sy - qy\<bar> \<le> 5 * (\<bar>qy\<bar> + \<bar>offsetY s\<bar>) / 2 ^ 53"
    by (rule back_and_there_y [OF d b])
qed

text \<open>
  On the two sample states: the screen point (29, 29) under the scale 7 comes back
  within the bound, and so does the font-unit point (3, 3) under the scale 0.4.
\<close>

theorem transform_round_trip_up_to_rounding_witness:
  "inverseTransformPoint_f64 sevenfold 29 29
     = Some (4664442471205157 / 1125899906842624, - (4664442471205157 / 1125899906842624))
   \<and> transformPoint_f64 sevenfold
        (4664442471205157 / 1125899906842624) (- (4664442471205157 / 1125899906842624))
     = Some (8162774324609025 / 281474976710656, 8162774324609025 / 281474976710656)
   \<and> \<bar>8162774324609025 / 281474976710656 - 29\<bar> \<le> 5 * (\<bar>29\<bar> + \<bar>offsetX sevenfold\<bar>) / 2 ^ 53
   \<and> transformPoint_f64 centred 3 3
     = Some (2659938529915699 / 17592186044416, 2617717283409101 / 17592186044416)
   \<and> inverseTransformPoint_f64 centred
        (2659938529915699 / 17592186044416) (2617717283409101 / 17592186044416)
     = Some (105553116266495 / 35184372088832, 105553116266495 / 35184372088832)
   \<and> \<bar>105553116266495 / 35184372088832 - 3\<bar>
       \<le> 5 * (\<bar>3\<bar> + \<bar>offsetX centred / scale centred\<bar>) / 2 ^ 53"
proof -
  define A B C1 C2 D :: real where "A = 4664442471205157 / 1125899906842624"
    and "B = 8162774324609025 / 281474976710656"
    and "C1 = 2659938529915699 / 17592186044416"
    and "C2 = 2617717283409101 / 17592186044416"
    and "D = 105553116266495 / 35184372088832"
  have inv7: "inverseTransformPoint_f64 sevenfold 29 29 = Some (A, - A)"
    and fwd7: "transformPoint_f64 sevenfold A (- A) = Some (B, B)"
    and fwd5: "transformPoint_f64 centred 3 3 = Some (C1, C2)"
    and inv5: "inverseTransformPoint_f64 centred C1 C2 = Some (D, D)"
    by (simp_all add: sevenfold_inverse sevenfold_forward centred_forward centred_inverse
        A_def B_def C1_def C2_def D_def)
  have "\<bar>B - 29\<bar> \<le> 5 * (\<bar>29\<bar> + \<bar>offsetX sevenfold\<bar>) / 2 ^ 53"
    using transform_round_trip_up_to_rounding [where s = sevenfold and qx = 29 and qy = 29]
      inv7 fwd7
    by simp
  moreover have "\<bar>D - 3\<bar> \<le> 5 * (\<bar>3\<bar> + \<bar>offsetX centred / scale centred\<bar>) / 2 ^ 53"
    using transform_round_trip_up_to_rounding [where s = centred and px = 3 and py = 3]
      fwd5 inv5
    by simp
  ultimately show ?thesis
    using sevenfold_inverse sevenfold_forward centred_forward centred_inverse
    by (simp only: B_def D_def)
qed

subsection \<open>calculateOptimalScale in doubles\<close>

text \<open>
  The scale times the extent of the box is at most 80% of the canvas side, up to five
  roundings.
\<close>

lemma scale_chain:
  fixes KD cw WC w :: real
  assumes "KD - KD / 2 ^ 53 \<le> cw + cw / 2 ^ 53" "cw \<le> WC + WC / 2 ^ 53"
    "WC \<le> w * (8 / 10) + w * (8 / 10) / 2 ^ 53" "0 < w"
  shows "KD \<le> 8 / 10 * w * (1 + 5 / 2 ^ 53)"
  using assms by (simp add: field_simps)

lemma scale_times_extent:
  fixes w c D gw cw sX k :: real
  assumes w: "0 < w" and D: "0 < D"
    and c: "0 < c" "c \<le> 8 / 10 * (1 + 1 / 2 ^ 53)"
    and gw: "\<bar>gw - D\<bar> \<le> \<bar>D\<bar> / 2 ^ 53"
    and cw: "\<bar>cw - w * c\<bar> \<le> \<bar>w * c\<bar> / 2 ^ 53"
    and sX: "\<bar>sX - cw / gw\<bar> \<le> \<bar>cw / gw\<bar> / 2 ^ 53"
  shows "0 < sX" and "0 \<le> k \<Longrightarrow> k \<le> sX \<Longrightarrow> k * D \<le> 8 / 10 * w * (1 + 5 / 2 ^ 53)"
proof -
  have gw_lo: "D - D / 2 ^ 53 \<le> gw"
    using gw D by linarith
  have "D / 2 ^ 53 < D"
    using D by (rule rel_small)
  with gw_lo have gw_pos: "0 < gw"
    using D by linarith
  have wc: "0 < w * c"
    using w c(1) by simp
  have "w * c / 2 ^ 53 < w * c"
    using wc by (rule rel_small)
  with cw wc have cw_pos: "0 < cw"
    by linarith
  have quot: "0 < cw / gw"
    using cw_pos gw_pos by simp
  have "cw / gw / 2 ^ 53 < cw / gw"
    using quot by (rule rel_small)
  with sX quot show sX_pos: "0 < sX"
    by linarith
  assume k: "0 \<le> k" "k \<le> sX"
  have "\<bar>sX * gw - cw / gw * gw\<bar> \<le> \<bar>cw / gw * gw\<bar> / 2 ^ 53"
    by (rule rel_mult' [OF sX])
  then have SG: "\<bar>sX * gw - cw\<bar> \<le> \<bar>cw\<bar> / 2 ^ 53"
    using gw_pos by simp
  have KG: "k * gw \<le> sX * gw"
    using k(2) gw_pos by (simp add: mult_right_mono)
  have "\<bar>gw * k - D * k\<bar> \<le> \<bar>D * k\<bar> / 2 ^ 53"
    by (rule rel_mult' [OF gw])
  moreover have "0 \<le> D * k"
    using D k(1) by simp
  ultimately have KD: "D * k - D * k / 2 ^ 53 \<le> gw * k"
    by linarith
  have WC: "w * c \<le> w * (8 / 10 * (1 + 1 / 2 ^ 53))"
    using c(2) w by (simp only: mult_le_cancel_left_pos)
  have 1: "sX * gw \<le> cw + cw / 2 ^ 53"
    using SG cw_pos by linarith
  have 2: "cw \<le> w * c + w * c / 2 ^ 53"
    using cw wc by linarith
  have 3: "D * k - D * k / 2 ^ 53 \<le> cw + cw / 2 ^ 53"
    using KD KG 1 by (simp add: mult.commute)
  have 5: "w * c \<le> w * (8 / 10) + w * (8 / 10) / 2 ^ 53"
    using WC by (simp only: distrib_left distrib_right ring_distribs mult_1_right times_divide_eq_right mult.assoc)
  have "D * k \<le> 8 / 10 * w * (1 + 5 / 2 ^ 53)"
    by (rule scale_chain [OF 3 2 5 w])
  then show "k * D \<le> 8 / 10 * w * (1 + 5 / 2 ^ 53)"
    by (simp add: mult.commute)
qed

text \<open>The scaled centre of the box, and the image of a corner along one axis.\<close>

lemma centre_product:
  fixes a b k m s12 gc q :: real
  assumes s: "\<bar>s12 - (a + b)\<bar> \<le> \<bar>a + b\<bar> / 2 ^ 53"
    and g: "\<bar>gc - s12 / 2\<bar> \<le> \<bar>s12 / 2\<bar> / 2 ^ 53"
    and q: "\<bar>q - gc * k\<bar> \<le> \<bar>gc * k\<bar> / 2 ^ 53"
    and m: "\<bar>a * k\<bar> \<le> m" "\<bar>b * k\<bar> \<le> m"
  shows "\<bar>q - (a * k + b * k) / 2\<bar> \<le> 4 * m / 2 ^ 53"
proof -
  define B0 where "B0 = 2 * m"
  define B1 where "B1 = (B0 + B0 / 2 ^ 53) / 2"
  define B2 where "B2 = B1 + B1 / 2 ^ 53"
  have m0: "0 \<le> m"
    using m(1) by linarith
  have "\<bar>s12 * k - (a + b) * k\<bar> \<le> \<bar>(a + b) * k\<bar> / 2 ^ 53"
    by (rule rel_mult' [OF s])
  then have s': "\<bar>s12 * k - (a * k + b * k)\<bar> \<le> \<bar>a * k + b * k\<bar> / 2 ^ 53"
    by (simp add: distrib_right)
  have "\<bar>a * k + b * k\<bar> \<le> B0"
    unfolding B0_def using m by linarith
  from rel_step [OF s' this]
  have s1: "\<bar>s12 * k - (a * k + b * k)\<bar> \<le> B0 / 2 ^ 53" and s2: "\<bar>s12 * k\<bar> \<le> B0 + B0 / 2 ^ 53" .
  have "\<bar>gc * k - s12 / 2 * k\<bar> \<le> \<bar>s12 / 2 * k\<bar> / 2 ^ 53"
    by (rule rel_mult' [OF g])
  then have g': "\<bar>gc * k - s12 * k / 2\<bar> \<le> \<bar>s12 * k / 2\<bar> / 2 ^ 53"
    by simp
  have "\<bar>s12 * k / 2\<bar> \<le> B1"
    unfolding B1_def using s2 by simp
  from rel_step [OF g' this]
  have g1: "\<bar>gc * k - s12 * k / 2\<bar> \<le> B1 / 2 ^ 53" and g2: "\<bar>gc * k\<bar> \<le> B2"
    by (simp_all add: B2_def)
  from rel_step(1) [OF q g2] have q1: "\<bar>q - gc * k\<bar> \<le> B2 / 2 ^ 53" .
  have "\<bar>q - (a * k + b * k) / 2\<bar> \<le> B2 / 2 ^ 53 + B1 / 2 ^ 53 + B0 / 2 ^ 53 / 2"
    by (rule tri3 [OF q1 g1 s1])
  also have "\<dots> \<le> 4 * m / 2 ^ 53"
    using m0 unfolding B2_def B1_def B0_def by (simp add: add_divide_distrib)
  finally show ?thesis .
qed

lemma axis_offset:
  fixes w m q c hw off :: real
  assumes w: "0 < w"
    and c: "\<bar>c\<bar> \<le> m"
    and q: "\<bar>q - c\<bar> \<le> 4 * m / 2 ^ 53"
    and hw: "\<bar>hw - w / 2\<bar> \<le> \<bar>w / 2\<bar> / 2 ^ 53"
    and off: "\<bar>off - (hw - q)\<bar> \<le> \<bar>hw - q\<bar> / 2 ^ 53"
  shows "\<bar>off + q - w / 2\<bar> \<le> (9 * w / 8 + 3 * m / 2) / 2 ^ 53"
    and "\<bar>off - (w / 2 - c)\<bar> \<le> (2 * w + 6 * m) / 2 ^ 53"
    and "\<bar>q\<bar> \<le> 2 * m"
proof -
  define H where "H = w / 2 + w / 2 / 2 ^ 53"
  define Q where "Q = m + 4 * m / 2 ^ 53"
  have m0: "0 \<le> m"
    using c by linarith
  have "\<bar>w / 2\<bar> \<le> w / 2"
    using w by simp
  from rel_step [OF hw this]
  have h1: "\<bar>hw - w / 2\<bar> \<le> w / 2 / 2 ^ 53" and h2: "\<bar>hw\<bar> \<le> H"
    by (simp_all add: H_def)
  have q2: "\<bar>q\<bar> \<le> Q"
    unfolding Q_def using q c by linarith
  have "Q \<le> 2 * m"
    using m0 unfolding Q_def by (simp add: add_divide_distrib)
  with q2 show "\<bar>q\<bar> \<le> 2 * m"
    by linarith
  have "\<bar>hw - q\<bar> \<le> H + Q"
    using h2 q2 by linarith
  from rel_step(1) [OF off this] have o1: "\<bar>off - (hw - q)\<bar> \<le> (H + Q) / 2 ^ 53" .
  have "\<bar>off + q - w / 2\<bar> \<le> (H + Q) / 2 ^ 53 + w / 2 / 2 ^ 53"
    using o1 h1 by linarith
  also have "\<dots> \<le> (9 * w / 8 + 3 * m / 2) / 2 ^ 53"
    using m0 w unfolding H_def Q_def by (simp add: add_divide_distrib)
  finally show "\<bar>off + q - w / 2\<bar> \<le> (9 * w / 8 + 3 * m / 2) / 2 ^ 53" .
  have "\<bar>off - (w / 2 - c)\<bar> \<le> (H + Q) / 2 ^ 53 + w / 2 / 2 ^ 53 + 4 * m / 2 ^ 53"
    using o1 h1 q by linarith
  also have "\<dots> \<le> (2 * w + 6 * m) / 2 ^ 53"
    using m0 w unfolding H_def Q_def by (simp add: add_divide_distrib)
  finally show "\<bar>off - (w / 2 - c)\<bar> \<le> (2 * w + 6 * m) / 2 ^ 53" .
qed

lemma axis_centre:
  fixes w m q c hw off X :: real
  assumes w: "0 < w"
    and c: "\<bar>c\<bar> \<le> m"
    and q: "\<bar>q - c\<bar> \<le> 4 * m / 2 ^ 53"
    and hw: "\<bar>hw - w / 2\<bar> \<le> \<bar>w / 2\<bar> / 2 ^ 53"
    and off: "\<bar>off - (hw - q)\<bar> \<le> \<bar>hw - q\<bar> / 2 ^ 53"
    and X: "\<bar>X - (off + q)\<bar> \<le> \<bar>off + q\<bar> / 2 ^ 53"
  shows "\<bar>X - w / 2\<bar> \<le> (w + m) / 2 ^ 52"
proof -
  define E where "E = (9 * w / 8 + 3 * m / 2) / 2 ^ 53"
  have m0: "0 \<le> m"
    using c by linarith
  have e: "\<bar>off + q - w / 2\<bar> \<le> E"
    unfolding E_def by (rule axis_offset(1) [OF w c q hw off])
  then have "\<bar>off + q\<bar> \<le> w / 2 + E"
    using w by linarith
  from rel_step(1) [OF X this] have "\<bar>X - (off + q)\<bar> \<le> (w / 2 + E) / 2 ^ 53" .
  from tri2 [OF this e] have "\<bar>X - w / 2\<bar> \<le> (w / 2 + E) / 2 ^ 53 + E" .
  also have "\<dots> \<le> (w + m) / 2 ^ 52"
    using m0 w unfolding E_def by (simp add: add_divide_distrib)
  finally show ?thesis .
qed

lemma axis_band:
  fixes w m q c hw off p r X :: real
  assumes w: "0 < w"
    and c: "\<bar>c\<bar> \<le> m"
    and q: "\<bar>q - c\<bar> \<le> 4 * m / 2 ^ 53"
    and hw: "\<bar>hw - w / 2\<bar> \<le> \<bar>w / 2\<bar> / 2 ^ 53"
    and off: "\<bar>off - (hw - q)\<bar> \<le> \<bar>hw - q\<bar> / 2 ^ 53"
    and p: "\<bar>p\<bar> \<le> m"
    and lo: "w / 10 - 4 * w / 2 ^ 53 \<le> w / 2 - c + p"
    and hi: "w / 2 - c + p \<le> 9 * w / 10 + 4 * w / 2 ^ 53"
    and r: "\<bar>r - p\<bar> \<le> \<bar>p\<bar> / 2 ^ 53"
    and X: "\<bar>X - (off + r)\<bar> \<le> \<bar>off + r\<bar> / 2 ^ 53"
  shows "w / 10 - (w + m) / 2 ^ 50 \<le> X" and "X \<le> 9 * w / 10 + (w + m) / 2 ^ 50"
proof -
  define E where "E = (2 * w + 6 * m) / 2 ^ 53 + m / 2 ^ 53"
  define T where "T = 9 * w / 10 + 4 * w / 2 ^ 53 + E"
  have m0: "0 \<le> m"
    using c by linarith
  have o: "\<bar>off - (w / 2 - c)\<bar> \<le> (2 * w + 6 * m) / 2 ^ 53"
    by (rule axis_offset(2) [OF w c q hw off])
  have r1: "\<bar>r - p\<bar> \<le> m / 2 ^ 53"
    by (rule rel_step(1) [OF r p])
  have e: "\<bar>off + r - (w / 2 - c + p)\<bar> \<le> E"
    unfolding E_def using o r1 by linarith
  have t0: "0 \<le> w / 2 - c + p"
  proof -
    have "4 * w / 2 ^ 53 \<le> w / 10"
      using w by simp
    with lo show ?thesis
      by linarith
  qed
  have "\<bar>off + r\<bar> \<le> T"
    unfolding T_def using e hi t0 by linarith
  from rel_step(1) [OF X this] have x: "\<bar>X - (off + r)\<bar> \<le> T / 2 ^ 53" .
  have tol: "4 * w / 2 ^ 53 + E + T / 2 ^ 53 \<le> (w + m) / 2 ^ 50"
    using m0 w unfolding T_def E_def by (simp add: add_divide_distrib)
  show "w / 10 - (w + m) / 2 ^ 50 \<le> X"
    using x e lo tol by linarith
  show "X \<le> 9 * w / 10 + (w + m) / 2 ^ 50"
    using x e hi tol by linarith
qed

lemma scaled_le_max:
  fixes a b k :: real
  assumes "0 < k"
  shows "\<bar>a * k\<bar> \<le> max \<bar>a\<bar> \<bar>b\<bar> * k" and "\<bar>b * k\<bar> \<le> max \<bar>a\<bar> \<bar>b\<bar> * k"
  using assms by (simp_all add: abs_mult mult_right_mono)

lemma avg_abs:
  fixes x y m :: real
  assumes "\<bar>x\<bar> \<le> m" "\<bar>y\<bar> \<le> m"
  shows "\<bar>(x + y) / 2\<bar> \<le> m"
  using assms unfolding add_divide_distrib by linarith

lemma band_ends:
  fixes w A B T :: real
  assumes "B - A \<le> 8 / 10 * w + T" "A \<le> B" "0 < w" "0 \<le> T"
  shows "w / 10 - T \<le> w / 2 - (A + B) / 2 + A"
    and "w / 2 - (A + B) / 2 + A \<le> 9 * w / 10 + T"
    and "w / 10 - T \<le> w / 2 - (A + B) / 2 + B"
    and "w / 2 - (A + B) / 2 + B \<le> 9 * w / 10 + T"
  using assms unfolding add_divide_distrib by linarith+

lemma fit_axis_x:
  assumes w: "0 < w" and ab: "a < b" and k: "0 < k"
    and ext: "k * (b - a) \<le> 8 / 10 * w * (1 + 5 / 2 ^ 53)"
    and s12: "f64_add a b = Some s12" and gc: "f64_div s12 2 = Some gc"
    and hw: "f64_div w 2 = Some hw" and q: "f64_mul gc k = Some q"
    and off: "f64_sub hw q = Some off"
  shows "p = a \<or> p = b \<Longrightarrow> f64_mul p k = Some r \<Longrightarrow> f64_add off r = Some X \<Longrightarrow>
           w / 10 - rounding_allowance w a b k \<le> X \<and> X \<le> 9 * w / 10 + rounding_allowance w a b k"
    and "f64_add off q = Some Xc \<Longrightarrow> \<bar>Xc - w / 2\<bar> \<le> rounding_allowance w a b k / 4"
proof -
  define m where "m = max \<bar>a\<bar> \<bar>b\<bar> * k"
  note m = scaled_le_max [OF k, where a = a and b = b, folded m_def]
  have c: "\<bar>(a * k + b * k) / 2\<bar> \<le> m"
    by (rule avg_abs [OF m])
  have q': "\<bar>q - (a * k + b * k) / 2\<bar> \<le> 4 * m / 2 ^ 53"
    by (rule centre_product [OF f64_addD [OF s12] f64_divD(2) [OF gc] f64_mulD [OF q] m])
  note hw' = f64_divD(2) [OF hw]
  note off' = f64_subD [OF off]
  {
    assume X: "f64_add off q = Some Xc"
    have "\<bar>Xc - w / 2\<bar> \<le> (w + m) / 2 ^ 52"
      by (rule axis_centre [OF w c q' hw' off' f64_addD [OF X]])
    then show "\<bar>Xc - w / 2\<bar> \<le> rounding_allowance w a b k / 4"
      by (simp add: rounding_allowance_def m_def)
  }
  {
    assume p: "p = a \<or> p = b" and r: "f64_mul p k = Some r" and X: "f64_add off r = Some X"
    have pm: "\<bar>p * k\<bar> \<le> m"
      using p m by auto
    have d: "k * (b - a) = b * k - a * k"
      by (simp add: algebra_simps)
    have ord: "a * k \<le> b * k"
      using ab k by simp
    have e: "b * k - a * k \<le> 8 / 10 * w + 4 * w / 2 ^ 53"
      using ext unfolding d by (simp add: algebra_simps)
    have T: "0 \<le> 4 * w / 2 ^ 53"
      using w by simp
    note ends = band_ends [OF e ord w T]
    have lo: "w / 10 - 4 * w / 2 ^ 53 \<le> w / 2 - (a * k + b * k) / 2 + p * k"
      using p ends(1,3) by (elim disjE) simp_all
    have hi: "w / 2 - (a * k + b * k) / 2 + p * k \<le> 9 * w / 10 + 4 * w / 2 ^ 53"
      using p ends(2,4) by (elim disjE) simp_all
    have "w / 10 - (w + m) / 2 ^ 50 \<le> X \<and> X \<le> 9 * w / 10 + (w + m) / 2 ^ 50"
      using axis_band [OF w c q' hw' off' pm lo hi f64_mulD [OF r] f64_addD [OF X]] by simp
    then show "w / 10 - rounding_allowance w a b k \<le> X \<and> X \<le> 9 * w / 10 + rounding_allowance w a b k"
      by (simp add: rounding_allowance_def m_def)
  }
qed

lemma fit_axis_y:
  assumes h: "0 < h" and ab: "a < b" and k: "0 < k"
    and ext: "k * (b - a) \<le> 8 / 10 * h * (1 + 5 / 2 ^ 53)"
    and s12: "f64_add a b = Some s12" and gc: "f64_div s12 2 = Some gc"
    and hh: "f64_div h 2 = Some hh" and q: "f64_mul gc k = Some q"
    and off: "f64_add hh q = Some off"
  shows "p = a \<or> p = b \<Longrightarrow> f64_mul p k = Some r \<Longrightarrow> f64_sub off r = Some Y \<Longrightarrow>
           h / 10 - rounding_allowance h a b k \<le> Y \<and> Y \<le> 9 * h / 10 + rounding_allowance h a b k"
    and "f64_sub off q = Some Yc \<Longrightarrow> \<bar>Yc - h / 2\<bar> \<le> rounding_allowance h a b k / 4"
proof -
  define m where "m = max \<bar>a\<bar> \<bar>b\<bar> * k"
  define A B where "A = - (b * k)" and "B = - (a * k)"
  define c where "c = (A + B) / 2"
  define nq where "nq = - q"
  note m = scaled_le_max [OF k, where a = a and b = b, folded m_def]
  have mA: "\<bar>A\<bar> \<le> m" and mB: "\<bar>B\<bar> \<le> m"
    using m by (simp_all add: A_def B_def)
  have c: "\<bar>c\<bar> \<le> m"
    unfolding c_def by (rule avg_abs [OF mA mB])
  have "\<bar>q - (a * k + b * k) / 2\<bar> \<le> 4 * m / 2 ^ 53"
    by (rule centre_product [OF f64_addD [OF s12] f64_divD(2) [OF gc] f64_mulD [OF q] m])
  moreover have "nq - c = - (q - (a * k + b * k) / 2)"
    by (simp add: nq_def c_def A_def B_def field_simps)
  ultimately have q': "\<bar>nq - c\<bar> \<le> 4 * m / 2 ^ 53"
    by (simp only: abs_minus)
  note hh' = f64_divD(2) [OF hh]
  have off': "\<bar>off - (hh - nq)\<bar> \<le> \<bar>hh - nq\<bar> / 2 ^ 53"
    using f64_addD [OF off] by (simp add: nq_def)
  {
    assume Y: "f64_sub off q = Some Yc"
    have Y': "\<bar>Yc - (off + nq)\<bar> \<le> \<bar>off + nq\<bar> / 2 ^ 53"
      using f64_subD [OF Y] by (simp add: nq_def)
    have "\<bar>Yc - h / 2\<bar> \<le> (h + m) / 2 ^ 52"
      by (rule axis_centre [OF h c q' hh' off' Y'])
    then show "\<bar>Yc - h / 2\<bar> \<le> rounding_allowance h a b k / 4"
      by (simp add: rounding_allowance_def m_def)
  }
  {
    assume p: "p = a \<or> p = b" and r: "f64_mul p k = Some r" and Y: "f64_sub off r = Some Y"
    define P where "P = - (p * k)"
    define nr where "nr = - r"
    have P: "P = B \<or> P = A"
      using p by (auto simp: P_def A_def B_def)
    have pm: "\<bar>P\<bar> \<le> m"
      using P mA mB by auto
    have ord: "A \<le> B"
      using ab k by (simp add: A_def B_def)
    have "B - A = k * (b - a)"
      by (simp add: A_def B_def algebra_simps)
    then have e: "B - A \<le> 8 / 10 * h + 4 * h / 2 ^ 53"
      using ext by (simp add: algebra_simps)
    have T: "0 \<le> 4 * h / 2 ^ 53"
      using h by simp
    note ends = band_ends [OF e ord h T, folded c_def]
    have lo: "h / 10 - 4 * h / 2 ^ 53 \<le> h / 2 - c + P"
      using P ends(1,3) by (elim disjE) simp_all
    have hi: "h / 2 - c + P \<le> 9 * h / 10 + 4 * h / 2 ^ 53"
      using P ends(2,4) by (elim disjE) simp_all
    have r': "\<bar>nr - P\<bar> \<le> \<bar>P\<bar> / 2 ^ 53"
      using f64_mulD [OF r] by (simp add: nr_def P_def abs_minus_commute)
    have Y': "\<bar>Y - (off + nr)\<bar> \<le> \<bar>off + nr\<bar> / 2 ^ 53"
      using f64_subD [OF Y] by (simp add: nr_def)
    have "h / 10 - (h + m) / 2 ^ 50 \<le> Y \<and> Y \<le> 9 * h / 10 + (h + m) / 2 ^ 50"
      using axis_band [OF h c q' hh' off' pm lo hi r' Y'] by simp
    then show "h / 10 - rounding_allowance h a b k \<le> Y \<and> Y \<le> 9 * h / 10 + rounding_allowance h a b k"
      by (simp add: rounding_allowance_def m_def)
  }
qed

lemma allowance_small:
  fixes w a b k :: real
  assumes w: "0 < w" and k: "0 < k"
    and ext: "k * (b - a) \<le> 8 / 10 * w * (1 + 5 / 2 ^ 53)"
    and near: "max \<bar>a\<bar> \<bar>b\<bar> \<le> 2 ^ 40 * (b - a)"
  shows "rounding_allowance w a b k < w / 10"
proof -
  have "max \<bar>a\<bar> \<bar>b\<bar> * k \<le> 2 ^ 40 * (b - a) * k"
    using near k by (simp only: mult_le_cancel_right_pos)
  also have "\<dots> = 2 ^ 40 * (k * (b - a))"
    by simp
  also have "\<dots> \<le> 2 ^ 40 * (8 / 10 * w * (1 + 5 / 2 ^ 53))"
    using ext by simp
  also have "\<dots> \<le> 2 ^ 40 * w"
    using w by simp
  finally have "w + max \<bar>a\<bar> \<bar>b\<bar> * k \<le> w + 2 ^ 40 * w"
    by simp
  then have "rounding_allowance w a b k \<le> (w + 2 ^ 40 * w) / 2 ^ 50"
    unfolding rounding_allowance_def by (simp only: divide_right_mono zero_le_numeral zero_le_power)
  also have "\<dots> < w / 10"
    using w by simp
  finally show ?thesis .
qed

text \<open>The sample glyph of 660 by 740 font units, operator by operator.\<close>

lemma tall_step_0: "f64_mul 300 double_0_8 = Some 240"
  unfolding f64_mul_def double_0_8_def
  by (rule fl64_eval [where e = 7]) (simp_all add: pow2_def round_even_def Let_def)

lemma tall_step_1: "f64_sub 700 40 = Some 660"
  unfolding f64_sub_def by (rule fl64_eval [where e = 9]) (simp_all add: pow2_def round_even_def Let_def)

lemma tall_step_2: "f64_sub 720 (- 20) = Some 740"
  unfolding f64_sub_def by (rule fl64_eval [where e = 9]) (simp_all add: pow2_def round_even_def Let_def)

lemma tall_step_3: "f64_div 240 660 = Some (3275345183542179 / 9007199254740992)"
  unfolding f64_div_def by (simp, rule fl64_eval [where e = "- 2"]) (simp_all add: pow2_def round_even_def Let_def)

lemma tall_step_4: "f64_div 240 740 = Some (1460626906174215 / 4503599627370496)"
  unfolding f64_div_def by (simp, rule fl64_eval [where e = "- 2"]) (simp_all add: pow2_def round_even_def Let_def)

lemma tall_step_5: "f64_add 40 700 = Some 740"
  unfolding f64_add_def by (rule fl64_eval [where e = 9]) (simp_all add: pow2_def round_even_def Let_def)

lemma tall_step_6: "f64_div 740 2 = Some 370"
  unfolding f64_div_def by (simp, rule fl64_eval [where e = 8]) (simp_all add: pow2_def round_even_def Let_def)

lemma tall_step_7: "f64_add (- 20) 720 = Some 700"
  unfolding f64_add_def by (rule fl64_eval [where e = 9]) (simp_all add: pow2_def round_even_def Let_def)

lemma tall_step_8: "f64_div 700 2 = Some 350"
  unfolding f64_div_def by (simp, rule fl64_eval [where e = 8]) (simp_all add: pow2_def round_even_def Let_def)

lemma tall_step_9: "f64_div 300 2 = Some 150"
  unfolding f64_div_def by (simp, rule fl64_eval [where e = 7]) (simp_all add: pow2_def round_even_def Let_def)

lemma tall_step_10: "f64_mul 370 (1460626906174215 / 4503599627370496) = Some 120"
  unfolding f64_mul_def by (rule fl64_eval [where e = 6]) (simp_all add: pow2_def round_even_def Let_def)

lemma tall_step_11: "f64_sub 150 120 = Some 30"
  unfolding f64_sub_def by (rule fl64_eval [where e = 4]) (simp_all add: pow2_def round_even_def Let_def)

lemma tall_step_12: "f64_mul 350 (1460626906174215 / 4503599627370496) = Some (3993901696570119 / 35184372088832)"
  unfolding f64_mul_def by (rule fl64_eval [where e = 6]) (simp_all add: pow2_def round_even_def Let_def)

lemma tall_step_13: "f64_add 150 (3993901696570119 / 35184372088832) = Some (1158944688736865 / 4398046511104)"
  unfolding f64_add_def by (rule fl64_eval [where e = 8]) (simp_all add: pow2_def round_even_def Let_def)

lemma tall_step_14: "f64_add 30 120 = Some 150"
  unfolding f64_add_def by (rule fl64_eval [where e = 7]) (simp_all add: pow2_def round_even_def Let_def)

lemma tall_step_15: "f64_sub (1158944688736865 / 4398046511104) (3993901696570119 / 35184372088832) = Some (5277655813324801 / 35184372088832)"
  unfolding f64_sub_def by (rule fl64_eval [where e = 7]) (simp_all add: pow2_def round_even_def Let_def)

lemma tall_step_16: "f64_mul 40 (1460626906174215 / 4503599627370496) = Some (7303134530871075 / 562949953421312)"
  unfolding f64_mul_def by (rule fl64_eval [where e = 3]) (simp_all add: pow2_def round_even_def Let_def)

lemma tall_step_17: "f64_add 30 (7303134530871075 / 562949953421312) = Some (6047908283377609 / 140737488355328)"
  unfolding f64_add_def by (rule fl64_eval [where e = 5]) (simp_all add: pow2_def round_even_def Let_def)

lemma tall_step_18: "f64_mul 700 (1460626906174215 / 4503599627370496) = Some (3993901696570119 / 17592186044416)"
  unfolding f64_mul_def by (rule fl64_eval [where e = 7]) (simp_all add: pow2_def round_even_def Let_def)

lemma tall_step_19: "f64_add 30 (3993901696570119 / 17592186044416) = Some (4521667277902599 / 17592186044416)"
  unfolding f64_add_def by (rule fl64_eval [where e = 8]) (simp_all add: pow2_def round_even_def Let_def)

lemma tall_step_20: "f64_mul (- 20) (1460626906174215 / 4503599627370496) = Some (- (7303134530871075 / 1125899906842624))"
  unfolding f64_mul_def by (rule fl64_eval [where e = 2]) (simp_all add: pow2_def round_even_def Let_def)

lemma tall_step_21: "f64_sub (1158944688736865 / 4398046511104) (- (7303134530871075 / 1125899906842624)) = Some (4749890231992321 / 17592186044416)"
  unfolding f64_sub_def by (rule fl64_eval [where e = 8]) (simp_all add: pow2_def round_even_def Let_def)

lemma tall_step_22: "f64_mul 720 (1460626906174215 / 4503599627370496) = Some (8216026347229959 / 35184372088832)"
  unfolding f64_mul_def by (rule fl64_eval [where e = 7]) (simp_all add: pow2_def round_even_def Let_def)

lemma tall_step_23: "f64_sub (1158944688736865 / 4398046511104) (8216026347229959 / 35184372088832) = Some (1055531162664961 / 35184372088832)"
  unfolding f64_sub_def by (rule fl64_eval [where e = 4]) (simp_all add: pow2_def round_even_def Let_def)

lemmas tall_steps = tall_step_0 tall_step_1 tall_step_2 tall_step_3 tall_step_4 tall_step_5 tall_step_6 tall_step_7 tall_step_8 tall_step_9 tall_step_10 tall_step_11 tall_step_12 tall_step_13 tall_step_14 tall_step_15 tall_step_16 tall_step_17 tall_step_18 tall_step_19 tall_step_20 tall_step_21 tall_step_22 tall_step_23

lemma tall_fit: "calculateOptimalScale_f64 tall_editor = Some (Inr tall_fitted)"
  by (simp add: calculateOptimalScale_f64_def tall_editor_def tall_fitted_def tall_glyph_def
      new_editor_def tall_steps)

lemma tall_centre: "box_centre_f64 (glyph_bbox tall_glyph) = Some (370, 350)"
  by (simp add: box_centre_f64_def tall_glyph_def tall_steps)

lemma tall_centre_image:
  "transformPoint_f64 tall_fitted 370 350 = Some (150, 5277655813324801 / 35184372088832)"
  by (simp add: transformPoint_f64_def tall_fitted_def tall_editor_def new_editor_def tall_steps)

lemma tall_corner_image:
  "transformPoint_f64 tall_fitted 40 (- 20)
     = Some (6047908283377609 / 140737488355328, 4749890231992321 / 17592186044416)"
  by (simp add: transformPoint_f64_def tall_fitted_def tall_editor_def new_editor_def tall_steps)

text \<open>
  C10, as stated, fails in the arithmetic of the script. On a canvas of 300 by 300
  pixels, for the box from (40, -20) to (700, 720), the centre (370, 350) of the box
  goes to (150, 150.00000000000003), which is not the centre of the canvas, and the
  corner (40, -20) goes to a point whose second coordinate is 270.00000000000006,
  outside the central 80% of the canvas, which ends at 270.
\<close>

theorem fit_not_exact_in_doubles:
  "calculateOptimalScale_f64 tall_editor = Some (Inr tall_fitted)
   \<and> box_centre_f64 (glyph_bbox tall_glyph) = Some (370, 350)
   \<and> transformPoint_f64 tall_fitted 370 350 = Some (150, 5277655813324801 / 35184372088832)
   \<and> (5277655813324801 / 35184372088832 :: real) \<noteq> 300 / 2
   \<and> transformPoint_f64 tall_fitted 40 (- 20)
       = Some (6047908283377609 / 140737488355328, 4749890231992321 / 17592186044416)
   \<and> (9 * 300 / 10 :: real) < 4749890231992321 / 17592186044416"
  by (simp add: tall_fit tall_centre tall_centre_image tall_corner_image)

text \<open>
  C10, amended. Let the box have positive width and height and the canvas positive
  sides, and let \<open>calculateOptimalScale\<close> and \<open>transformPoint\<close> stay within the normal
  finite doubles. Then the scale is positive, and each corner of the box goes into the
  central 80% of the canvas in each axis up to the rounding allowance of that axis,
  which is the canvas side plus the scaled coordinate of the farther edge of the box,
  divided by \<open>2 ^ 50\<close>. The corner goes strictly inside the canvas in an axis where the box is not
  farther from the origin than \<open>2 ^ 40\<close> times its extent. The centre of the box, as
  the function computes it, goes to the centre of the canvas up to a quarter of the
  allowance. In exact arithmetic the allowance is not needed (lemma
  \<open>calculateOptimalScale_fits_box_exact\<close>).
\<close>

theorem calculateOptimalScale_fits_box_up_to_rounding:
  fixes s s' :: editor and g :: glyph and r :: rect
  defines "bbox \<equiv> glyph_bbox g"
  defines "w \<equiv> rect_width r" and "h \<equiv> rect_height r"
  defines "tx \<equiv> rounding_allowance w (bb_x1 bbox) (bb_x2 bbox) (scale s')"
  defines "ty \<equiv> rounding_allowance h (bb_y1 bbox) (bb_y2 bbox) (scale s')"
  assumes g: "glyph s = Some g" and r: "canvasRect s = Some r"
    and box: "bb_x1 bbox < bb_x2 bbox" "bb_y1 bbox < bb_y2 bbox"
    and canvas: "0 < w" "0 < h"
    and res: "calculateOptimalScale_f64 s = Some (Inr s')"
  shows "0 < scale s'
    \<and> (\<forall>cx \<in> {bb_x1 bbox, bb_x2 bbox}. \<forall>cy \<in> {bb_y1 bbox, bb_y2 bbox}. \<forall>X Y.
          transformPoint_f64 s' cx cy = Some (X, Y) \<longrightarrow>
            w / 10 - tx \<le> X \<and> X \<le> 9 * w / 10 + tx
            \<and> h / 10 - ty \<le> Y \<and> Y \<le> 9 * h / 10 + ty
            \<and> (max \<bar>bb_x1 bbox\<bar> \<bar>bb_x2 bbox\<bar> \<le> 2 ^ 40 * (bb_x2 bbox - bb_x1 bbox) \<longrightarrow> 0 < X \<and> X < w)
            \<and> (max \<bar>bb_y1 bbox\<bar> \<bar>bb_y2 bbox\<bar> \<le> 2 ^ 40 * (bb_y2 bbox - bb_y1 bbox) \<longrightarrow> 0 < Y \<and> Y < h))
    \<and> (\<forall>gx gy X Y.
          box_centre_f64 bbox = Some (gx, gy) \<longrightarrow> transformPoint_f64 s' gx gy = Some (X, Y) \<longrightarrow>
            \<bar>X - w / 2\<bar> \<le> tx / 4 \<and> \<bar>Y - h / 2\<bar> \<le> ty / 4)"
proof -
  from res g r obtain gw gh cw ch sX sY s12x gcx s12y gcy hw qx offX hh qy offY
    where gw: "f64_sub (bb_x2 bbox) (bb_x1 bbox) = Some gw"
      and gh: "f64_sub (bb_y2 bbox) (bb_y1 bbox) = Some gh"
      and cw: "f64_mul w double_0_8 = Some cw"
      and ch: "f64_mul h double_0_8 = Some ch"
      and sX: "f64_div cw gw = Some sX"
      and sY: "f64_div ch gh = Some sY"
      and s12x: "f64_add (bb_x1 bbox) (bb_x2 bbox) = Some s12x"
      and gcx: "f64_div s12x 2 = Some gcx"
      and s12y: "f64_add (bb_y1 bbox) (bb_y2 bbox) = Some s12y"
      and gcy: "f64_div s12y 2 = Some gcy"
      and hw: "f64_div w 2 = Some hw"
      and qx: "f64_mul gcx (min sX sY) = Some qx"
      and offX: "f64_sub hw qx = Some offX"
      and hh: "f64_div h 2 = Some hh"
      and qy: "f64_mul gcy (min sX sY) = Some qy"
      and offY: "f64_add hh qy = Some offY"
      and s': "s' = s \<lparr> scale := min sX sY, offsetX := offX, offsetY := offY \<rparr>"
    unfolding calculateOptimalScale_f64_def bbox_def w_def h_def
    by (auto simp: bind_eq_Some_conv Let_def)
  define k where "k = min sX sY"
  have fields: "scale s' = k" "offsetX s' = offX" "offsetY s' = offY"
    by (simp_all add: s' k_def)
  have Dx: "0 < bb_x2 bbox - bb_x1 bbox" and Dy: "0 < bb_y2 bbox - bb_y1 bbox"
    using box by simp_all
  note ex = scale_times_extent [OF canvas(1) Dx double_0_8_bounds f64_subD [OF gw] f64_mulD [OF cw]
      f64_divD(2) [OF sX]]
  note ey = scale_times_extent [OF canvas(2) Dy double_0_8_bounds f64_subD [OF gh] f64_mulD [OF ch]
      f64_divD(2) [OF sY]]
  have k: "0 < k"
    using ex(1) ey(1) by (simp add: k_def)
  have extx: "k * (bb_x2 bbox - bb_x1 bbox) \<le> 8 / 10 * w * (1 + 5 / 2 ^ 53)"
    using k by (intro ex(2)) (simp_all add: k_def)
  have exty: "k * (bb_y2 bbox - bb_y1 bbox) \<le> 8 / 10 * h * (1 + 5 / 2 ^ 53)"
    using k by (intro ey(2)) (simp_all add: k_def)
  note fx = fit_axis_x [OF canvas(1) box(1) k extx s12x gcx hw qx [folded k_def] offX]
  note fy = fit_axis_y [OF canvas(2) box(2) k exty s12y gcy hh qy [folded k_def] offY]
  note smallx = allowance_small [OF canvas(1) k extx]
  note smally = allowance_small [OF canvas(2) k exty]
  have corners: "w / 10 - tx \<le> X \<and> X \<le> 9 * w / 10 + tx
            \<and> h / 10 - ty \<le> Y \<and> Y \<le> 9 * h / 10 + ty
            \<and> (max \<bar>bb_x1 bbox\<bar> \<bar>bb_x2 bbox\<bar> \<le> 2 ^ 40 * (bb_x2 bbox - bb_x1 bbox) \<longrightarrow> 0 < X \<and> X < w)
            \<and> (max \<bar>bb_y1 bbox\<bar> \<bar>bb_y2 bbox\<bar> \<le> 2 ^ 40 * (bb_y2 bbox - bb_y1 bbox) \<longrightarrow> 0 < Y \<and> Y < h)"
    if cx: "cx = bb_x1 bbox \<or> cx = bb_x2 bbox" and cy: "cy = bb_y1 bbox \<or> cy = bb_y2 bbox"
      and tp: "transformPoint_f64 s' cx cy = Some (X, Y)" for cx cy X Y
  proof -
    from tp obtain rx ry where rx: "f64_mul cx k = Some rx" "f64_add offX rx = Some X"
      and ry: "f64_mul cy k = Some ry" "f64_sub offY ry = Some Y"
      by (auto simp: transformPoint_f64_def bind_eq_Some_conv fields)
    have bx: "w / 10 - tx \<le> X \<and> X \<le> 9 * w / 10 + tx"
      unfolding tx_def fields by (rule fx(1) [OF cx rx])
    have byy: "h / 10 - ty \<le> Y \<and> Y \<le> 9 * h / 10 + ty"
      unfolding ty_def fields by (rule fy(1) [OF cy ry])
    have sx: "0 < X \<and> X < w" if "max \<bar>bb_x1 bbox\<bar> \<bar>bb_x2 bbox\<bar> \<le> 2 ^ 40 * (bb_x2 bbox - bb_x1 bbox)"
      using bx smallx [OF that] canvas(1) unfolding tx_def fields by linarith
    have sy: "0 < Y \<and> Y < h" if "max \<bar>bb_y1 bbox\<bar> \<bar>bb_y2 bbox\<bar> \<le> 2 ^ 40 * (bb_y2 bbox - bb_y1 bbox)"
      using byy smally [OF that] canvas(2) unfolding ty_def fields by linarith
    show ?thesis
      using bx byy sx sy by blast
  qed
  have centre: "\<bar>X - w / 2\<bar> \<le> tx / 4 \<and> \<bar>Y - h / 2\<bar> \<le> ty / 4"
    if c: "box_centre_f64 bbox = Some (gx, gy)" and tp: "transformPoint_f64 s' gx gy = Some (X, Y)"
    for gx gy X Y
  proof -
    from c s12x gcx s12y gcy have gx: "gx = gcx" and gy: "gy = gcy"
      by (auto simp: box_centre_f64_def bind_eq_Some_conv)
    from tp qx qy have X: "f64_add offX qx = Some X" and Y: "f64_sub offY qy = Some Y"
      by (auto simp: transformPoint_f64_def bind_eq_Some_conv fields gx gy k_def)
    show ?thesis
      unfolding tx_def ty_def fields using fx(2) [OF X] fy(2) [OF Y] by simp
  qed
  show ?thesis
    using k corners centre by (simp add: fields)
qed

text \<open>
  On the sample glyph the second coordinate of the image of the corner (40, -20) is
  270.00000000000006: within the allowance of the band and strictly inside the canvas.
  That of the image of the centre is 150.00000000000003, within a quarter of the
  allowance of 150.
\<close>

theorem calculateOptimalScale_fits_box_up_to_rounding_witness:
  "calculateOptimalScale_f64 tall_editor = Some (Inr tall_fitted)
   \<and> transformPoint_f64 tall_fitted 40 (- 20)
       = Some (6047908283377609 / 140737488355328, 4749890231992321 / 17592186044416)
   \<and> box_centre_f64 (glyph_bbox tall_glyph) = Some (370, 350)
   \<and> transformPoint_f64 tall_fitted 370 350 = Some (150, 5277655813324801 / 35184372088832)
   \<and> 0 < scale tall_fitted
   \<and> (4749890231992321 / 17592186044416 :: real)
       \<le> 9 * 300 / 10 + rounding_allowance 300 (- 20) 720 (scale tall_fitted)
   \<and> 0 < (4749890231992321 / 17592186044416 :: real)
   \<and> (4749890231992321 / 17592186044416 :: real) < 300
   \<and> \<bar>5277655813324801 / 35184372088832 - 300 / 2\<bar>
       \<le> rounding_allowance 300 (- 20) 720 (scale tall_fitted) / 4"
proof -
  define X0 Y0 Yc :: real where "X0 = 6047908283377609 / 140737488355328"
    and "Y0 = 4749890231992321 / 17592186044416"
    and "Yc = 5277655813324801 / 35184372088832"
  have g: "glyph tall_editor = Some tall_glyph"
    and r: "canvasRect tall_editor = Some \<lparr> rect_width = 300, rect_height = 300 \<rparr>"
    by (simp_all add: tall_editor_def)
  have box: "bb_x1 (glyph_bbox tall_glyph) < bb_x2 (glyph_bbox tall_glyph)"
    "bb_y1 (glyph_bbox tall_glyph) < bb_y2 (glyph_bbox tall_glyph)"
    by (simp_all add: tall_glyph_def)
  have canvas: "0 < rect_width \<lparr> rect_width = 300, rect_height = 300 \<rparr>"
    "0 < rect_height \<lparr> rect_width = 300, rect_height = 300 \<rparr>"
    by simp_all
  have corner: "transformPoint_f64 tall_fitted 40 (- 20) = Some (X0, Y0)"
    by (simp add: tall_corner_image X0_def Y0_def)
  have centre: "transformPoint_f64 tall_fitted 370 350 = Some (150, Yc)"
    by (simp add: tall_centre_image Yc_def)
  have c: "box_centre_f64 \<lparr> bb_x1 = 40, bb_y1 = - 20, bb_x2 = 700, bb_y2 = 720 \<rparr> = Some (370, 350)"
    using tall_centre by (simp add: tall_glyph_def)
  have "0 < scale tall_fitted
    \<and> Y0 \<le> 9 * 300 / 10 + rounding_allowance 300 (- 20) 720 (scale tall_fitted)
    \<and> 0 < Y0 \<and> Y0 < 300
    \<and> \<bar>Yc - 300 / 2\<bar> \<le> rounding_allowance 300 (- 20) 720 (scale tall_fitted) / 4"
    using calculateOptimalScale_fits_box_up_to_rounding [OF g r box canvas tall_fit] corner centre c
    by (simp add: tall_glyph_def)
  then show ?thesis
    using tall_fit tall_corner_image tall_centre tall_centre_image by (simp only: Y0_def Yc_def)
qed
end
